theory Spec2Isabelle
  imports Main "HOL-Library.Multiset"
begin

section \<open>Image verification: the per-artifact state machine of \<open>cmd/medius/images/verify.go\<close>\<close>

text \<open>
  The Go code talks to a cluster, a random source, a logger and a cancellable context.
  In this embedding every such collaborator is an explicit argument whose answers are
  functions, and every call the code makes on one of them is appended to a trace of events,
  so that statements such as "exactly one delete call is issued" are statements about the
  returned trace.
\<close>

subsection \<open>Errors, panics, contexts\<close>

datatype ctx_err = Canceled | DeadlineExceeded

datatype error = ErrWaitTimeout | ErrContext ctx_err | Err string

text \<open>
  A Go function either returns, or panics (the goroutine unwinds), or blocks for ever on a
  channel operation.
\<close>

datatype 'a go = Ret 'a | Panic string | Blocked

text \<open>
  The places at which the code of one attempt looks at the shared context: the five
  \<open>errors.Is(ctx.Err(), context.Canceled)\<close> gates of \<open>verifyArtifact\<close> (lines 105, 122, 128,
  141 and, once per test, 151) and the looks a poll helper takes, one before each poll.
\<close>

datatype checkpoint =
    BeforeCreate | AfterCreate | AfterWait | AfterGetVMI | AfterTest nat | BeforePoll nat

text \<open>\<open>ctx.Err()\<close> as one attempt observes it at each checkpoint; \<open>None\<close> is Go's nil.\<close>

type_synonym ctx = "checkpoint \<Rightarrow> ctx_err option"

definition is_canceled :: "ctx_err option \<Rightarrow> bool" where
  "is_canceled e = (e = Some Canceled)"

subsection \<open>Data model\<close>

record ArtifactResult =
  Tags :: "string list"
  Verified :: bool

record vm =
  vm_name :: string
  vm_image :: string
  vm_userdata :: string
  vm_ready :: bool

record vmi =
  vmi_name :: string

record UserData =
  Username :: string
  AuthorizedKeys :: "string list"

record ArtifactTestParams =
  tp_Username :: string
  tp_PrivateKey :: string

type_synonym test_fn = "ctx \<Rightarrow> vmi \<Rightarrow> ArtifactTestParams \<Rightarrow> error option"

record Artifact =
  Describe :: string
  Name :: string
  VM :: "string \<Rightarrow> string \<Rightarrow> string \<Rightarrow> vm"
  UserData_of :: "UserData \<Rightarrow> string"
  Tests :: "test_fn list"

text \<open>
  \<open>common.Options\<close>, flattened: \<open>Registry\<close>, \<open>ImagesOptions.ResultsFile\<close>,
  \<open>VerifyImagesOptions.Namespace\<close> and \<open>VerifyImagesOptions.Timeout\<close> (a Go \<open>int\<close>).
\<close>

record Options =
  Registry :: string
  ResultsFile :: string
  Namespace :: string
  Timeout :: int

record DeleteOptions =
  GracePeriodSeconds :: "int option"

text \<open>
  The cluster client. \<open>Get\<close> of a VM is asked repeatedly by the readiness poll, so its
  answer depends on which poll of the attempt is asking.
\<close>

record VirtualMachineInterface =
  Create :: "vm \<Rightarrow> error + vm"
  Delete :: "string \<Rightarrow> DeleteOptions \<Rightarrow> error option"
  Get :: "nat \<Rightarrow> string \<Rightarrow> error + vm"

record VirtualMachineInstanceInterface =
  GetVMI :: "string \<Rightarrow> error + vmi"

record KubevirtClient =
  VirtualMachine :: "string \<Rightarrow> VirtualMachineInterface"
  VirtualMachineInstance :: "string \<Rightarrow> VirtualMachineInstanceInterface"

text \<open>
  What one attempt gets from the Go libraries and the random source: \<open>path.Join\<close>,
  \<open>ed25519.GenerateKey(rand.Reader)\<close>, \<open>PrivateKey.Public\<close>, \<open>ssh.NewPublicKey\<close>,
  \<open>ssh.MarshalAuthorizedKey\<close>, \<open>urand.String\<close> and \<open>wait.PollImmediateWithContext\<close>. Keys are
  byte strings. The poll helper is called with the context, the interval, the timeout (both
  durations, in nanoseconds) and the condition; it answers with the error it returns and
  with the number of times it has invoked the condition, its invocations being
  \<open>condition 0\<close>, \<open>condition 1\<close>, and so on. Nothing is assumed about what it does.
\<close>

record runtime =
  pathJoin :: "string \<Rightarrow> string \<Rightarrow> string"
  GenerateKey :: "error + (string \<times> string)"
  Public :: "string \<Rightarrow> string"
  NewPublicKey :: "string \<Rightarrow> error + string"
  MarshalAuthorizedKey :: "string \<Rightarrow> string"
  randString :: "nat \<Rightarrow> string"
  PollImmediateWithContext ::
    "ctx \<Rightarrow> int \<Rightarrow> int \<Rightarrow> (nat \<Rightarrow> bool \<times> error option) \<Rightarrow> error option \<times> nat"

datatype level = LvInfo | LvError

datatype event =
    EvCheck checkpoint
  | EvGenerateKey
  | EvCreate vm
  | EvDelete string DeleteOptions
  | EvGetVM string
  | EvGetVMI string
  | EvTest nat
  | EvLog level string "error option"

definition VerifyUsername :: string where
  "VerifyUsername = ''verify''"

subsection \<open>Credential provisioning and VM construction\<close>

text \<open>Go's \<open>s[:n]\<close>: a panic unless \<open>0 \<le> n \<le> len(s)\<close>.\<close>

definition slice_to :: "string \<Rightarrow> int \<Rightarrow> string option" where
  "slice_to s n = (if 0 \<le> n \<and> n \<le> int (length s) then Some (take (nat n) s) else None)"

text \<open>Go's \<open>xs[i]\<close>: a panic unless \<open>i < len(xs)\<close>.\<close>

definition index :: "'a list \<Rightarrow> nat \<Rightarrow> 'a option" where
  "index xs i = (if i < length xs then Some (xs ! i) else None)"

definition marshallPublicKey :: "runtime \<Rightarrow> string \<Rightarrow> (error + string) go" where
  "marshallPublicKey rt key =
     (case NewPublicKey rt (Public rt key) of
        Inl err \<Rightarrow> Ret (Inl err)
      | Inr sshKey \<Rightarrow>
          (let marshalled = MarshalAuthorizedKey rt sshKey in
           case slice_to marshalled (int (length marshalled) - 1) of
             None \<Rightarrow> Panic ''slice bounds out of range''
           | Some s \<Rightarrow> Ret (Inr s)))"

definition randName :: "runtime \<Rightarrow> string \<Rightarrow> string" where
  "randName rt name = name @ ''-'' @ randString rt 5"

definition createVM :: "runtime \<Rightarrow> Artifact \<Rightarrow> string \<Rightarrow> (error + vm \<times> string) go \<times> event list" where
  "createVM rt artifact imgRef =
     (case GenerateKey rt of
        Inl err \<Rightarrow> (Ret (Inl err), [EvGenerateKey])
      | Inr (_, privateKey) \<Rightarrow>
          (case marshallPublicKey rt privateKey of
             Panic p \<Rightarrow> (Panic p, [EvGenerateKey])
           | Blocked \<Rightarrow> (Blocked, [EvGenerateKey])
           | Ret (Inl err) \<Rightarrow> (Ret (Inl err), [EvGenerateKey])
           | Ret (Inr publicKey) \<Rightarrow>
               (let userData = UserData_of artifact
                      \<lparr>Username = VerifyUsername, AuthorizedKeys = [publicKey]\<rparr>;
                    name = randName rt (Name artifact)
                in (Ret (Inr (VM artifact name imgRef userData, privateKey)), [EvGenerateKey]))))"

subsection \<open>Readiness waiter\<close>

text \<open>\<open>time.Duration\<close> is a signed 64-bit count of nanoseconds; arithmetic on it wraps.\<close>

definition wrap64 :: "int \<Rightarrow> int" where
  "wrap64 x = (x + 2 ^ 63) mod 2 ^ 64 - 2 ^ 63"

definition Second :: int where
  "Second = 1000000000"

text \<open>
  Lines 199 to 209. \<open>timeout\<close> is a Go \<open>int\<close>, taken to be 64 bits wide;
  \<open>time.Duration(timeout) * time.Second\<close> is a product of 64-bit integers. Each invocation
  of the condition is one get of the VM.
\<close>

definition waitVMReady ::
    "runtime \<Rightarrow> ctx \<Rightarrow> string \<Rightarrow> VirtualMachineInterface \<Rightarrow> int \<Rightarrow>
     error option \<times> event list" where
  "waitVMReady rt ctx name client timeout =
     (case PollImmediateWithContext rt ctx Second (wrap64 (wrap64 timeout * Second))
             (\<lambda>k. case Get client k name of
                     Inl err \<Rightarrow> (False, Some err)
                   | Inr v \<Rightarrow> (vm_ready v, None)) of
        (err, n) \<Rightarrow> (err, replicate n (EvGetVM name)))"

subsection \<open>The verification state machine\<close>

type_synonym verify_ret = "ArtifactResult option \<times> error option"

text \<open>
  The test loop of lines 146 to 154. \<open>Some r\<close> is a \<open>return r\<close> from inside the loop,
  \<open>None\<close> is the loop running to its end. \<open>i\<close> is the position of the next test in
  \<open>artifact.Tests()\<close>.
\<close>

fun runTests ::
    "ctx \<Rightarrow> test_fn list \<Rightarrow> nat \<Rightarrow> vmi \<Rightarrow> string \<Rightarrow> verify_ret option \<times> event list" where
  "runTests ctx [] i vmi privateKey = (None, [])"
| "runTests ctx (testFn # rest) i vmi privateKey =
     (case testFn ctx vmi \<lparr>tp_Username = VerifyUsername, tp_PrivateKey = privateKey\<rparr> of
        Some err \<Rightarrow>
          (Some (None, Some err),
           [EvTest i, EvLog LvError ''Failed to verify containerdisk'' (Some err)])
      | None \<Rightarrow>
          if is_canceled (ctx (AfterTest i))
          then (Some (None, None), [EvTest i, EvCheck (AfterTest i)])
          else (case runTests ctx rest (Suc i) vmi privateKey of
                  (r, tr) \<Rightarrow> (r, EvTest i # EvCheck (AfterTest i) # tr)))"

text \<open>Lines 122 to 160: what runs between the registration of the deferred delete and the return.\<close>

definition verifyCreated ::
    "runtime \<Rightarrow> ctx \<Rightarrow> Artifact \<Rightarrow> ArtifactResult \<Rightarrow> Options \<Rightarrow> KubevirtClient \<Rightarrow>
     VirtualMachineInterface \<Rightarrow> vm \<Rightarrow> string \<Rightarrow> verify_ret \<times> event list" where
  "verifyCreated rt ctx artifact result options client vmClient v privateKey =
     (if is_canceled (ctx AfterCreate) then ((None, None), [EvCheck AfterCreate])
      else
        (case waitVMReady rt ctx (vm_name v) vmClient (Timeout options) of
           (Some err, wtr) \<Rightarrow>
             if is_canceled (ctx AfterWait)
             then ((None, None),
                   [EvCheck AfterCreate, EvLog LvInfo ''Waiting for VM to be ready'' None]
                   @ wtr @ [EvCheck AfterWait])
             else ((None, Some err),
                   [EvCheck AfterCreate, EvLog LvInfo ''Waiting for VM to be ready'' None]
                   @ wtr @ [EvCheck AfterWait, EvLog LvError ''VM not ready'' (Some err)])
         | (None, wtr) \<Rightarrow>
             (case GetVMI (VirtualMachineInstance client (Namespace options)) (vm_name v) of
                Inl err \<Rightarrow>
                  ((None, Some err),
                   [EvCheck AfterCreate, EvLog LvInfo ''Waiting for VM to be ready'' None]
                   @ wtr @ [EvGetVMI (vm_name v), EvLog LvError ''Failed to get VMI'' (Some err)])
              | Inr i \<Rightarrow>
                  if is_canceled (ctx AfterGetVMI)
                  then ((None, None),
                        [EvCheck AfterCreate, EvLog LvInfo ''Waiting for VM to be ready'' None]
                        @ wtr @ [EvGetVMI (vm_name v), EvCheck AfterGetVMI])
                  else
                    (case runTests ctx (Tests artifact) 0 i privateKey of
                       (Some r, ttr) \<Rightarrow>
                         (r,
                          [EvCheck AfterCreate, EvLog LvInfo ''Waiting for VM to be ready'' None]
                          @ wtr @ [EvGetVMI (vm_name v), EvCheck AfterGetVMI,
                                   EvLog LvInfo ''Running tests on VMI'' None] @ ttr)
                     | (None, ttr) \<Rightarrow>
                         ((Some \<lparr>Tags = Tags result, Verified = True\<rparr>, None),
                          [EvCheck AfterCreate, EvLog LvInfo ''Waiting for VM to be ready'' None]
                          @ wtr @ [EvGetVMI (vm_name v), EvCheck AfterGetVMI,
                                   EvLog LvInfo ''Running tests on VMI'' None] @ ttr
                          @ [EvLog LvInfo ''Tests successful'' None])))))"

text \<open>
  The deferred function of lines 116 to 120. It assigns the delete's error to the local
  \<open>err\<close>, which is not a named result, so the values already returned are not touched.
\<close>

definition deferredDelete :: "VirtualMachineInterface \<Rightarrow> vm \<Rightarrow> event list" where
  "deferredDelete vmClient v =
     EvDelete (vm_name v) \<lparr>GracePeriodSeconds = Some 0\<rparr> #
     (case Delete vmClient (vm_name v) \<lparr>GracePeriodSeconds = Some 0\<rparr> of
        Some err \<Rightarrow> [EvLog LvError ''Failed to delete VM'' (Some err)]
      | None \<Rightarrow> [])"

definition verifyArtifact ::
    "runtime \<Rightarrow> ctx \<Rightarrow> Artifact \<Rightarrow> ArtifactResult \<Rightarrow> Options \<Rightarrow> KubevirtClient \<Rightarrow>
     verify_ret go \<times> event list" where
  "verifyArtifact rt ctx artifact result options client =
     (if length (Tags result) = 0
      then (Ret (None, None), [EvLog LvInfo ''No containerdisks to verify'' None])
      else
        (case index (Tags result) 0 of
           None \<Rightarrow> (Panic ''index out of range'', [])
         | Some tag \<Rightarrow>
             (case createVM rt artifact (pathJoin rt (Registry options) tag) of
                (Panic p, ctr) \<Rightarrow> (Panic p, ctr)
              | (Blocked, ctr) \<Rightarrow> (Blocked, ctr)
              | (Ret (Inl err), ctr) \<Rightarrow>
                  (Ret (None, Some err),
                   ctr @ [EvLog LvError ''Failed to create VM object'' (Some err)])
              | (Ret (Inr (v, privateKey)), ctr) \<Rightarrow>
                  if is_canceled (ctx BeforeCreate)
                  then (Ret (None, None), ctr @ [EvCheck BeforeCreate])
                  else
                    (let vmClient = VirtualMachine client (Namespace options) in
                     case Create vmClient v of
                       Inl err \<Rightarrow>
                         (Ret (None, Some err),
                          ctr @ [EvCheck BeforeCreate, EvLog LvInfo ''Creating VM'' None,
                                 EvCreate v, EvLog LvError ''Failed to create VM'' (Some err)])
                     | Inr v' \<Rightarrow>
                         (case verifyCreated rt ctx artifact result options client vmClient v'
                                 privateKey of
                            (r, tr) \<Rightarrow>
                              (Ret r,
                               ctr @ [EvCheck BeforeCreate, EvLog LvInfo ''Creating VM'' None,
                                      EvCreate v] @ tr @ deferredDelete vmClient v'))))))"

subsection \<open>Result aggregation and the orchestration entry point\<close>

record workerResult =
  Key :: string
  Value :: ArtifactResult

type_synonym ledger = "string \<rightharpoonup> ArtifactResult"

text \<open>A buffered channel of worker results: \<open>make(chan workerResult, n)\<close>.\<close>

record chan =
  cap :: nat
  buf :: "workerResult list"
  closed :: bool

definition make_chan :: "nat \<Rightarrow> chan" where
  "make_chan n = \<lparr>cap = n, buf = [], closed = False\<rparr>"

text \<open>
  A send on a channel whose buffer is full blocks; nothing receives before the workers have
  finished, so such a send would block for ever: \<open>None\<close>.
\<close>

definition send :: "chan \<Rightarrow> workerResult \<Rightarrow> chan option" where
  "send c r = (if length (buf c) < cap c then Some (c\<lparr>buf := buf c @ [r]\<rparr>) else None)"

definition close_chan :: "chan \<Rightarrow> chan" where
  "close_chan c = c\<lparr>closed := True\<rparr>"

text \<open>
  The collaborators of a whole run: the ledger file, the client constructor, the catalog
  \<open>common.Registry\<close>, and, for the attempt of each artifact, the library answers and the
  context observations that attempt gets.
\<close>

record system =
  readResultsFile :: "string \<Rightarrow> error + ledger"
  writeResultsFile :: "string \<Rightarrow> ledger \<Rightarrow> error option"
  GetKubevirtClient :: "error + KubevirtClient"
  CatalogRegistry :: "Artifact list"
  attempt_runtime :: "Artifact \<Rightarrow> runtime"
  attempt_ctx :: "Artifact \<Rightarrow> ctx"

text \<open>The callback of lines 53 to 68, with the channel it sends on made explicit.\<close>

definition worker ::
    "system \<Rightarrow> Options \<Rightarrow> KubevirtClient \<Rightarrow> ledger \<Rightarrow> Artifact \<Rightarrow> chan \<Rightarrow>
     error option go \<times> chan \<times> event list" where
  "worker sys options client results a resultsChan =
     (case results (Describe a) of
        None \<Rightarrow> (Ret None, resultsChan, [])
      | Some r \<Rightarrow>
          if Verified r then (Ret None, resultsChan, [])
          else
            (case verifyArtifact (attempt_runtime sys a) (attempt_ctx sys a) a r options client of
               (Panic p, tr) \<Rightarrow> (Panic p, resultsChan, tr)
             | (Blocked, tr) \<Rightarrow> (Blocked, resultsChan, tr)
             | (Ret (None, err), tr) \<Rightarrow> (Ret err, resultsChan, tr)
             | (Ret (Some res, err), tr) \<Rightarrow>
                 (case send resultsChan \<lparr>Key = Describe a, Value = res\<rparr> of
                    None \<Rightarrow> (Blocked, resultsChan, tr)
                  | Some c \<Rightarrow> (Ret err, c, tr))))"

text \<open>
  Modelled from the spec: \<open>spawnWorkers\<close> lives in another file of the package. Section 6 of
  the specification: it invokes the callback once per catalog artifact and returns the last
  error after all callbacks have completed. The list argument is the catalog in the order in
  which the pool happens to complete the artifacts; a callback that panics or blocks ends
  the run.
\<close>

fun spawnWorkers ::
    "(Artifact \<Rightarrow> chan \<Rightarrow> error option go \<times> chan \<times> event list) \<Rightarrow> Artifact list \<Rightarrow> chan \<Rightarrow>
     error option go \<times> chan \<times> event list" where
  "spawnWorkers callback [] c = (Ret None, c, [])"
| "spawnWorkers callback (a # rest) c =
     (case callback a c of
        (Ret err, c', tr) \<Rightarrow>
          (case spawnWorkers callback rest c' of
             (Ret err', c'', tr') \<Rightarrow>
               (Ret (case err' of None \<Rightarrow> err | Some e \<Rightarrow> Some e), c'', tr @ tr')
           | (Panic p, c'', tr') \<Rightarrow> (Panic p, c'', tr @ tr')
           | (Blocked, c'', tr') \<Rightarrow> (Blocked, c'', tr @ tr'))
      | (Panic p, c', tr) \<Rightarrow> (Panic p, c', tr)
      | (Blocked, c', tr) \<Rightarrow> (Blocked, c', tr))"

text \<open>The loop of lines 71 to 73 over the results received from the channel.\<close>

fun drain :: "ledger \<Rightarrow> workerResult list \<Rightarrow> ledger" where
  "drain results [] = results"
| "drain results (r # rs) = drain (results(Key r \<mapsto> Value r)) rs"

text \<open>\<open>for result := range resultsChan\<close> ends only on a closed channel.\<close>

definition range_chan :: "chan \<Rightarrow> workerResult list option" where
  "range_chan c = (if closed c then Some (buf c) else None)"

datatype exit_status = ExitOK | ExitFatal error | ExitPanic string | ExitDeadlock

record run_result =
  exit :: exit_status
  written :: "ledger option"
  run_trace :: "event list"

text \<open>The defaults set at lines 31 to 34; the flags may replace them.\<close>

definition default_options :: "Options \<Rightarrow> Options" where
  "default_options options = options\<lparr>Namespace := ''kubevirt'', Timeout := 600\<rparr>"

text \<open>
  The \<open>Run\<close> function of the command, lines 39 to 82. \<open>sched\<close> is the catalog in the order
  in which the pool completes its artifacts.
\<close>

definition Run :: "system \<Rightarrow> Options \<Rightarrow> Artifact list \<Rightarrow> run_result" where
  "Run sys options sched =
     (case readResultsFile sys (ResultsFile options) of
        Inl err \<Rightarrow> \<lparr>exit = ExitFatal err, written = None, run_trace = []\<rparr>
      | Inr results \<Rightarrow>
          (case GetKubevirtClient sys of
             Inl err \<Rightarrow> \<lparr>exit = ExitFatal err, written = None, run_trace = []\<rparr>
           | Inr client \<Rightarrow>
               (case spawnWorkers (worker sys options client results) sched
                       (make_chan (length (CatalogRegistry sys))) of
                  (Panic p, c, tr) \<Rightarrow> \<lparr>exit = ExitPanic p, written = None, run_trace = tr\<rparr>
                | (Blocked, c, tr) \<Rightarrow> \<lparr>exit = ExitDeadlock, written = None, run_trace = tr\<rparr>
                | (Ret err, c, tr) \<Rightarrow>
                    (case range_chan (close_chan c) of
                       None \<Rightarrow> \<lparr>exit = ExitDeadlock, written = None, run_trace = tr\<rparr>
                     | Some received \<Rightarrow>
                         (case writeResultsFile sys (ResultsFile options)
                                 (drain results received) of
                            Some werr \<Rightarrow>
                              \<lparr>exit = ExitFatal werr, written = None, run_trace = tr\<rparr>
                          | None \<Rightarrow>
                              (case err of
                                 Some e \<Rightarrow>
                                   \<lparr>exit = ExitFatal e,
                                    written = Some (drain results received), run_trace = tr\<rparr>
                               | None \<Rightarrow>
                                   \<lparr>exit = ExitOK,
                                    written = Some (drain results received),
                                    run_trace = tr\<rparr>))))))"

subsection \<open>Reading traces\<close>

fun is_create :: "event \<Rightarrow> bool" where
  "is_create (EvCreate v) = True"
| "is_create e = False"

fun is_delete :: "event \<Rightarrow> bool" where
  "is_delete (EvDelete n d) = True"
| "is_delete e = False"

fun is_get :: "event \<Rightarrow> bool" where
  "is_get (EvGetVM n) = True"
| "is_get e = False"

fun is_test :: "event \<Rightarrow> bool" where
  "is_test (EvTest i) = True"
| "is_test e = False"

text \<open>The parameters every test function of an attempt is called with (line 147).\<close>

definition test_params :: "string \<Rightarrow> ArtifactTestParams" where
  "test_params privateKey = \<lparr>tp_Username = VerifyUsername, tp_PrivateKey = privateKey\<rparr>"

text \<open>What the callback for one artifact puts on the results channel when it returns.\<close>

definition sent :: "system \<Rightarrow> Options \<Rightarrow> KubevirtClient \<Rightarrow> ledger \<Rightarrow> Artifact \<Rightarrow> workerResult list" where
  "sent sys options client results a =
     (case results (Describe a) of
        None \<Rightarrow> []
      | Some r \<Rightarrow>
          if Verified r then []
          else
            (case fst (verifyArtifact (attempt_runtime sys a) (attempt_ctx sys a) a r options
                        client) of
               Ret (Some res, err) \<Rightarrow> [\<lparr>Key = Describe a, Value = res\<rparr>]
             | _ \<Rightarrow> []))"

text \<open>The entry a run has written for a key; the outer \<open>None\<close>: the run wrote no ledger.\<close>

definition written_entry :: "run_result \<Rightarrow> string \<Rightarrow> ArtifactResult option option" where
  "written_entry res k = (case written res of None \<Rightarrow> None | Some l \<Rightarrow> Some (l k))"

text \<open>A client whose delete calls answer \<open>d\<close> and which is otherwise \<open>client\<close>.\<close>

definition with_delete :: "(string \<Rightarrow> DeleteOptions \<Rightarrow> error option) \<Rightarrow> KubevirtClient \<Rightarrow> KubevirtClient" where
  "with_delete d client =
     client\<lparr>VirtualMachine := (\<lambda>ns. (VirtualMachine client ns)\<lparr>Delete := d\<rparr>)\<rparr>"

text \<open>
  The attempt gets as far as its test loop: the tag set is not empty, \<open>createVM\<close> has built
  \<open>v\<close> from the first tag and generated the private key \<open>key\<close>, the cluster has created
  it as \<open>v'\<close>, the wait for \<open>v'\<close> has succeeded, \<open>i\<close> is the instance fetched for \<open>v'\<close>,
  and no gate before the loop has fired.
\<close>

definition reaches_tests ::
    "runtime \<Rightarrow> ctx \<Rightarrow> Artifact \<Rightarrow> ArtifactResult \<Rightarrow> Options \<Rightarrow> KubevirtClient \<Rightarrow>
     vm \<Rightarrow> string \<Rightarrow> vm \<Rightarrow> vmi \<Rightarrow> bool" where
  "reaches_tests rt ctx artifact result options client v key v' i =
     (Tags result \<noteq> [] \<and>
      fst (createVM rt artifact (pathJoin rt (Registry options) (hd (Tags result)))) =
        Ret (Inr (v, key)) \<and>
      \<not> is_canceled (ctx BeforeCreate) \<and>
      Create (VirtualMachine client (Namespace options)) v = Inr v' \<and>
      \<not> is_canceled (ctx AfterCreate) \<and>
      fst (waitVMReady rt ctx (vm_name v') (VirtualMachine client (Namespace options))
             (Timeout options)) = None \<and>
      GetVMI (VirtualMachineInstance client (Namespace options)) (vm_name v') = Inr i \<and>
      \<not> is_canceled (ctx AfterGetVMI))"

text \<open>
  Test \<open>j\<close> of the artifact, called on the instance \<open>i\<close> with the key \<open>key\<close>, returns nil
  and the gate after it does not fire, so that the loop goes on.
\<close>

definition test_continues :: "ctx \<Rightarrow> Artifact \<Rightarrow> vmi \<Rightarrow> string \<Rightarrow> nat \<Rightarrow> bool" where
  "test_continues ctx artifact i key j =
     ((Tests artifact ! j) ctx i (test_params key) = None \<and> \<not> is_canceled (ctx (AfterTest j)))"

text \<open>The attempt the callback runs for an artifact panics.\<close>

definition attempt_panics :: "system \<Rightarrow> Options \<Rightarrow> KubevirtClient \<Rightarrow> ledger \<Rightarrow> Artifact \<Rightarrow> bool" where
  "attempt_panics sys options client results a =
     (case results (Describe a) of
        None \<Rightarrow> False
      | Some r \<Rightarrow>
          \<not> Verified r \<and>
          (case fst (verifyArtifact (attempt_runtime sys a) (attempt_ctx sys a) a r options
                      client) of
             Panic p \<Rightarrow> True
           | _ \<Rightarrow> False))"

subsection \<open>A concrete catalog entry, cluster and ledger\<close>

definition fedora_vm :: "string \<Rightarrow> string \<Rightarrow> string \<Rightarrow> vm" where
  "fedora_vm name imgRef userData =
     \<lparr>vm_name = name, vm_image = imgRef, vm_userdata = userData, vm_ready = False\<rparr>"

definition pass_test :: test_fn where
  "pass_test c i p = None"

definition fail_test :: test_fn where
  "fail_test c i p = Some (Err ''guest check failed'')"

definition fedora :: Artifact where
  "fedora = \<lparr>Describe = ''fedora'', Name = ''fedora'', VM = fedora_vm,
             UserData_of = (\<lambda>u. concat (AuthorizedKeys u)), Tests = [pass_test, pass_test]\<rparr>"

definition fedora_failing :: Artifact where
  "fedora_failing = fedora\<lparr>Tests := [pass_test, fail_test, pass_test]\<rparr>"

text \<open>
  A poll helper for the scenarios below, which wait with an interval of one second and a
  timeout of 600 seconds. Once per interval, the first time at once and for as many polls as
  fit into the timeout, it looks at the context and then invokes the condition; it stops
  when the context has ended, when the condition fails or holds, and when the polls are
  used up.
\<close>

fun poll_loop :: "ctx \<Rightarrow> (nat \<Rightarrow> bool \<times> error option) \<Rightarrow> nat \<Rightarrow> nat \<Rightarrow> error option \<times> nat" where
  "poll_loop ctx condition 0 k = (Some ErrWaitTimeout, k)"
| "poll_loop ctx condition (Suc n) k =
     (case ctx (BeforePoll k) of
        Some ce \<Rightarrow> (Some (ErrContext ce), k)
      | None \<Rightarrow>
          (case condition k of
             (_, Some err) \<Rightarrow> (Some err, Suc k)
           | (True, None) \<Rightarrow> (None, Suc k)
           | (False, None) \<Rightarrow> poll_loop ctx condition n (Suc k)))"

definition example_poll ::
    "ctx \<Rightarrow> int \<Rightarrow> int \<Rightarrow> (nat \<Rightarrow> bool \<times> error option) \<Rightarrow> error option \<times> nat" where
  "example_poll ctx interval timeout condition =
     poll_loop ctx condition (Suc (nat (timeout div interval))) 0"

definition rt0 :: runtime where
  "rt0 = \<lparr>pathJoin = (\<lambda>a b. a @ ''/'' @ b), GenerateKey = Inr (''pub'', ''priv''),
          Public = (\<lambda>k. ''pub''), NewPublicKey = Inr,
          MarshalAuthorizedKey = (\<lambda>k. ''ssh-ed25519 '' @ k @ [CHR 0x0A]),
          randString = (\<lambda>n. ''ab12x''), PollImmediateWithContext = example_poll\<rparr>"

text \<open>A cluster on which everything succeeds and a VM reports ready from its third poll on.\<close>

definition vmc0 :: VirtualMachineInterface where
  "vmc0 = \<lparr>Create = Inr, Delete = (\<lambda>n d. None),
           Get = (\<lambda>k n. Inr \<lparr>vm_name = n, vm_image = [], vm_userdata = [], vm_ready = (2 \<le> k)\<rparr>)\<rparr>"

definition client0 :: KubevirtClient where
  "client0 = \<lparr>VirtualMachine = (\<lambda>ns. vmc0),
              VirtualMachineInstance = (\<lambda>ns. \<lparr>GetVMI = (\<lambda>n. Inr \<lparr>vmi_name = n\<rparr>)\<rparr>)\<rparr>"

definition fedora_created :: vm where
  "fedora_created =
     fedora_vm ''fedora-ab12x'' ''quay.io/containerdisks/fedora:39'' ''ssh-ed25519 pub''"

definition delete_fails :: "string \<Rightarrow> DeleteOptions \<Rightarrow> error option" where
  "delete_fails n d = Some (Err ''delete refused'')"

definition ctx0 :: ctx where
  "ctx0 cp = None"

definition ctx_at :: "checkpoint \<Rightarrow> ctx_err \<Rightarrow> ctx" where
  "ctx_at cp e = (\<lambda>c. if c = cp then Some e else None)"

definition ctx_deadline :: ctx where
  "ctx_deadline cp = Some DeadlineExceeded"

definition opts0 :: Options where
  "opts0 = default_options \<lparr>Registry = ''quay.io/containerdisks'', ResultsFile = ''results.json'',
             Namespace = [], Timeout = 0\<rparr>"

definition unverified :: ArtifactResult where
  "unverified = \<lparr>Tags = [''fedora:39''], Verified = False\<rparr>"

definition empty_ledger :: ledger where
  "empty_ledger = Map.empty"

definition ledger0 :: ledger where
  "ledger0 = empty_ledger(''fedora'' \<mapsto> unverified)"

definition result_fedora :: workerResult where
  "result_fedora = \<lparr>Key = ''fedora'', Value = \<lparr>Tags = [''fedora:39''], Verified = True\<rparr>\<rparr>"

definition result_centos :: workerResult where
  "result_centos = \<lparr>Key = ''centos'', Value = \<lparr>Tags = [''centos:9''], Verified = True\<rparr>\<rparr>"

definition sys0 :: "ledger \<Rightarrow> system" where
  "sys0 l = \<lparr>readResultsFile = (\<lambda>f. Inr l), writeResultsFile = (\<lambda>f l'. None),
              GetKubevirtClient = Inr client0, CatalogRegistry = [fedora],
              attempt_runtime = (\<lambda>a. rt0), attempt_ctx = (\<lambda>a. ctx0)\<rparr>"

section \<open>Properties\<close>

subsection \<open>Traces of the parts\<close>

lemma createVM_trace: "createVM rt a img = (r, tr) \<Longrightarrow> tr = [EvGenerateKey]"
  by (auto simp: createVM_def Let_def split: sum.splits prod.splits go.splits)

lemma waitVMReady_trace:
  "waitVMReady rt ctx n c t = (e, tr) \<Longrightarrow> \<exists>k. tr = replicate k (EvGetVM n)"
  by (auto simp: waitVMReady_def split: prod.splits)

lemma filter_replicate_GetVM [simp]:
  "filter is_delete (replicate k (EvGetVM n)) = []"
  "filter is_create (replicate k (EvGetVM n)) = []"
  "filter is_test (replicate k (EvGetVM n)) = []"
  by (induction k) auto

lemma deferredDelete_filters [simp]:
  "filter is_delete (deferredDelete vmc v) = [EvDelete (vm_name v) \<lparr>GracePeriodSeconds = Some 0\<rparr>]"
  "filter is_create (deferredDelete vmc v) = []"
  "filter is_test (deferredDelete vmc v) = []"
  "EvCheck cp \<notin> set (deferredDelete vmc v)"
  "EvCreate w \<notin> set (deferredDelete vmc v)"
  by (auto simp: deferredDelete_def split: option.splits)

lemma runTests_no_cluster_calls:
  "runTests ctx ts i v k = (r, tr) \<Longrightarrow> filter is_delete tr = [] \<and> filter is_create tr = []"
proof (induction ts arbitrary: i r tr)
  case Nil
  then show ?case by simp
next
  case (Cons t ts)
  then show ?case
    by (auto split: option.splits if_splits prod.splits)
qed

lemma runTests_checks:
  "runTests ctx ts i v k = (r, tr) \<Longrightarrow> EvCheck cp \<in> set tr \<Longrightarrow> is_canceled (ctx cp) \<Longrightarrow>
   r = Some (None, None)"
proof (induction ts arbitrary: i r tr)
  case Nil
  then show ?case by simp
next
  case (Cons t ts)
  then show ?case
    by (auto split: option.splits if_splits prod.splits)
qed

lemma verifyCreated_no_cluster_calls:
  "verifyCreated rt ctx a res opts cl vmc v k = (r, tr) \<Longrightarrow>
   filter is_delete tr = [] \<and> filter is_create tr = []"
  unfolding verifyCreated_def
  by (clarsimp split: option.splits if_splits prod.splits sum.splits
      dest!: waitVMReady_trace runTests_no_cluster_calls)

lemma verifyCreated_checks:
  "verifyCreated rt ctx a res opts cl vmc v k = (r, tr) \<Longrightarrow> EvCheck cp \<in> set tr \<Longrightarrow>
   is_canceled (ctx cp) \<Longrightarrow> r = (None, None)"
  unfolding verifyCreated_def
  apply (clarsimp split: option.splits if_splits prod.splits sum.splits dest!: waitVMReady_trace)
         apply (auto dest: runTests_checks)
  done

lemma verifyArtifact_checks:
  "verifyArtifact rt ctx a res opts cl = (out, tr) \<Longrightarrow> EvCheck cp \<in> set tr \<Longrightarrow>
   is_canceled (ctx cp) \<Longrightarrow> out = Ret (None, None)"
  unfolding verifyArtifact_def Let_def
  apply (clarsimp split: option.splits if_splits prod.splits sum.splits go.splits
      dest!: createVM_trace)
         apply (auto dest: verifyCreated_checks)
  done

lemma verifyCreated_delete_irrelevant:
  "verifyCreated rt ctx a res opts (with_delete d cl) (vmc\<lparr>Delete := d\<rparr>) v k =
   verifyCreated rt ctx a res opts cl vmc v k"
proof -
  have a: "VirtualMachineInstance (with_delete d cl) = VirtualMachineInstance cl"
    by (simp add: with_delete_def)
  have b: "Get (vmc\<lparr>Delete := d\<rparr>) = Get vmc"
    by simp
  show ?thesis
    unfolding verifyCreated_def waitVMReady_def a b by (rule refl)
qed

lemma verifyArtifact_delete_irrelevant:
  "fst (verifyArtifact rt ctx a res opts (with_delete d cl)) = fst (verifyArtifact rt ctx a res opts cl)"
proof -
  have vm: "VirtualMachine (with_delete d cl) ns = (VirtualMachine cl ns)\<lparr>Delete := d\<rparr>" for ns
    by (simp add: with_delete_def)
  have cr: "Create (vmc\<lparr>Delete := d\<rparr>) = Create vmc" for vmc :: VirtualMachineInterface
    by simp
  show ?thesis
    unfolding verifyArtifact_def Let_def vm cr verifyCreated_delete_irrelevant
    by (simp split: option.splits if_splits prod.splits sum.splits go.splits)
qed

subsection \<open>Guaranteed teardown\<close>

text \<open>
  Claim C2. In every attempt whose VM creation call was made and succeeded, the trace holds
  exactly one delete call: the one for the created instance, with a grace period of zero.
  It is in the trace of the attempt, so it is issued before the attempt returns, whatever
  the exit path. When the delete fails, the failure is logged, and the value and error
  the attempt returns are the same whatever the delete call answers.
\<close>

theorem delete_exactly_once:
  assumes run: "verifyArtifact rt ctx artifact result options client = (out, tr)"
    and made: "EvCreate v \<in> set tr"
    and ok: "Create (VirtualMachine client (Namespace options)) v = Inr v'"
  shows "filter is_delete tr = [EvDelete (vm_name v') \<lparr>GracePeriodSeconds = Some 0\<rparr>] \<and>
         (\<forall>e. Delete (VirtualMachine client (Namespace options)) (vm_name v')
                 \<lparr>GracePeriodSeconds = Some 0\<rparr> = Some e \<longrightarrow>
              EvLog LvError ''Failed to delete VM'' (Some e) \<in> set tr) \<and>
         (\<forall>d. fst (verifyArtifact rt ctx artifact result options (with_delete d client)) = out)"
proof -
  have "fst (verifyArtifact rt ctx artifact result options (with_delete d client)) = out" for d
    using run by (simp add: verifyArtifact_delete_irrelevant)
  moreover have "filter is_delete tr = [EvDelete (vm_name v') \<lparr>GracePeriodSeconds = Some 0\<rparr>] \<and>
         (\<forall>e. Delete (VirtualMachine client (Namespace options)) (vm_name v')
                 \<lparr>GracePeriodSeconds = Some 0\<rparr> = Some e \<longrightarrow>
              EvLog LvError ''Failed to delete VM'' (Some e) \<in> set tr)"
    using run made ok
    unfolding verifyArtifact_def Let_def
    apply (clarsimp split: option.splits if_splits prod.splits sum.splits go.splits
        dest!: createVM_trace)
    apply (frule verifyCreated_no_cluster_calls)
    apply (auto simp: filter_empty_conv deferredDelete_def)
    done
  ultimately show ?thesis by blast
qed

theorem delete_exactly_once_witness:
  "EvCreate fedora_created \<in>
     set (snd (verifyArtifact rt0 ctx0 fedora_failing unverified opts0
                 (with_delete delete_fails client0))) \<and>
   Create (VirtualMachine (with_delete delete_fails client0) (Namespace opts0)) fedora_created =
     Inr fedora_created \<and>
   filter is_delete
     (snd (verifyArtifact rt0 ctx0 fedora_failing unverified opts0
             (with_delete delete_fails client0))) =
     [EvDelete ''fedora-ab12x'' \<lparr>GracePeriodSeconds = Some 0\<rparr>] \<and>
   EvLog LvError ''Failed to delete VM'' (Some (Err ''delete refused'')) \<in>
     set (snd (verifyArtifact rt0 ctx0 fedora_failing unverified opts0
                 (with_delete delete_fails client0))) \<and>
   fst (verifyArtifact rt0 ctx0 fedora_failing unverified opts0
          (with_delete (\<lambda>n d. None) (with_delete delete_fails client0))) =
     Ret (None, Some (Err ''guest check failed''))"
proof -
  let ?cl = "with_delete delete_fails client0"
  let ?run = "verifyArtifact rt0 ctx0 fedora_failing unverified opts0 ?cl"
  have out: "fst ?run = Ret (None, Some (Err ''guest check failed''))"
    by code_simp
  have run: "?run = (Ret (None, Some (Err ''guest check failed'')), snd ?run)"
    using out by (simp add: prod_eq_iff)
  have made: "EvCreate fedora_created \<in> set (snd ?run)"
    by code_simp
  have ok: "Create (VirtualMachine ?cl (Namespace opts0)) fedora_created = Inr fedora_created"
    by (simp add: with_delete_def client0_def vmc0_def)
  have name: "vm_name fedora_created = ''fedora-ab12x''"
    by (simp add: fedora_created_def fedora_vm_def)
  have del: "Delete (VirtualMachine ?cl (Namespace opts0)) ''fedora-ab12x''
               \<lparr>GracePeriodSeconds = Some 0\<rparr> = Some (Err ''delete refused'')"
    by (simp add: with_delete_def delete_fails_def)
  show ?thesis
    using delete_exactly_once [OF run made ok] made ok del by (simp add: name)
qed

subsection \<open>Nothing to verify\<close>

text \<open>
  Claim C8. For an artifact whose prior result carries no image tag, the state machine
  returns no result and no error; its only effect is one log line, so no key is generated
  and no VM is created.
\<close>

theorem verifyArtifact_zero_tags:
  assumes "Tags result = []"
  shows "verifyArtifact rt ctx artifact result options client =
           (Ret (None, None), [EvLog LvInfo ''No containerdisks to verify'' None]) \<and>
         EvGenerateKey \<notin> set (snd (verifyArtifact rt ctx artifact result options client)) \<and>
         filter is_create (snd (verifyArtifact rt ctx artifact result options client)) = []"
  using assms by (simp add: verifyArtifact_def)

theorem verifyArtifact_zero_tags_witness:
  "Tags \<lparr>Tags = [], Verified = False\<rparr> = [] \<and>
   verifyArtifact rt0 ctx0 fedora \<lparr>Tags = [], Verified = False\<rparr> opts0 client0 =
     (Ret (None, None), [EvLog LvInfo ''No containerdisks to verify'' None])"
proof -
  have h: "Tags \<lparr>Tags = [], Verified = False\<rparr> = []" by simp
  show ?thesis
    using h verifyArtifact_zero_tags [OF h, of rt0 ctx0 fedora opts0 client0] by simp
qed

subsection \<open>Building the VM, and what a success returns\<close>

lemma createVM_facts:
  "createVM rt a img = (r, tr) \<Longrightarrow>
   tr = [EvGenerateKey] \<and>
   (\<forall>v k. r = Ret (Inr (v, k)) \<longrightarrow> (\<exists>userData. v = VM a (randName rt (Name a)) img userData))"
  by (auto simp: createVM_def Let_def split: sum.splits prod.splits go.splits)

lemma index_first: "xs \<noteq> [] \<Longrightarrow> index xs 0 = Some (hd xs)"
  by (cases xs) (simp_all add: index_def)

lemma runTests_success:
  "runTests ctx ts i v k = (Some r, tr) \<Longrightarrow> fst r = None"
proof (induction ts arbitrary: i tr)
  case Nil
  then show ?case by simp
next
  case (Cons t ts)
  then show ?case
    by (auto split: option.splits if_splits prod.splits)
qed

lemma verifyCreated_success:
  "verifyCreated rt ctx a res opts cl vmc v k = ((Some r, e), tr) \<Longrightarrow>
   r = \<lparr>Tags = Tags res, Verified = True\<rparr> \<and> e = None"
  unfolding verifyCreated_def
  by (auto split: option.splits if_splits prod.splits sum.splits dest!: runTests_success)

subsection \<open>The test loop\<close>

lemma runTests_Cons_fail:
  "t ctx v (test_params key) = Some err \<Longrightarrow>
   runTests ctx (t # ts) i v key =
     (Some (None, Some err), [EvTest i, EvLog LvError ''Failed to verify containerdisk'' (Some err)])"
  by (simp add: test_params_def)

lemma runTests_Cons_cancel:
  "t ctx v (test_params key) = None \<Longrightarrow> is_canceled (ctx (AfterTest i)) \<Longrightarrow>
   runTests ctx (t # ts) i v key = (Some (None, None), [EvTest i, EvCheck (AfterTest i)])"
  by (simp add: test_params_def)

lemma runTests_Cons_next:
  "t ctx v (test_params key) = None \<Longrightarrow> \<not> is_canceled (ctx (AfterTest i)) \<Longrightarrow>
   runTests ctx (t # ts) i v key =
     (fst (runTests ctx ts (Suc i) v key),
      EvTest i # EvCheck (AfterTest i) # snd (runTests ctx ts (Suc i) v key))"
  by (simp add: test_params_def split: prod.splits)

lemma runTests_order:
  "runTests ctx ts i v key = (r, tr) \<Longrightarrow>
   \<exists>k \<le> length ts.
     filter is_test tr = map EvTest [i..<i + k] \<and>
     (\<forall>j. Suc j < k \<longrightarrow> (ts ! j) ctx v (test_params key) = None) \<and>
     (\<forall>err. 0 < k \<longrightarrow> (ts ! (k - 1)) ctx v (test_params key) = Some err \<longrightarrow>
        r = Some (None, Some err)) \<and>
     (r = None \<longrightarrow> k = length ts)"
proof (induction ts arbitrary: i r tr)
  case Nil
  then show ?case by simp
next
  case (Cons t ts)
  show ?case
  proof (cases "t ctx v (test_params key)")
    case (Some err)
    from Cons.prems runTests_Cons_fail [where t=t and ctx=ctx and v=v and key=key and ts=ts and i=i, OF Some]
    have r: "r = Some (None, Some err)"
      and tr: "tr = [EvTest i, EvLog LvError ''Failed to verify containerdisk'' (Some err)]"
      by simp_all
    show ?thesis
      by (rule exI [of _ 1]) (simp add: r tr Some)
  next
    case None
    show ?thesis
    proof (cases "is_canceled (ctx (AfterTest i))")
      case True
      from Cons.prems runTests_Cons_cancel [where t=t and ctx=ctx and v=v and key=key and ts=ts and i=i, OF None True]
      have r: "r = Some (None, None)" and tr: "tr = [EvTest i, EvCheck (AfterTest i)]"
        by simp_all
      show ?thesis
        by (rule exI [of _ 1]) (simp add: r tr None)
    next
      case False
      obtain r' tr' where rest: "runTests ctx ts (Suc i) v key = (r', tr')"
        by (cases "runTests ctx ts (Suc i) v key")
      from Cons.prems runTests_Cons_next [where t=t and ctx=ctx and v=v and key=key and ts=ts and i=i, OF None False] rest
      have r: "r = r'" and tr: "tr = EvTest i # EvCheck (AfterTest i) # tr'"
        by simp_all
      from Cons.IH [OF rest] obtain k where k: "k \<le> length ts"
        and ev: "filter is_test tr' = map EvTest [Suc i..<Suc i + k]"
        and passed: "\<forall>j. Suc j < k \<longrightarrow> (ts ! j) ctx v (test_params key) = None"
        and failed: "\<forall>err. 0 < k \<longrightarrow> (ts ! (k - 1)) ctx v (test_params key) = Some err \<longrightarrow>
                       r' = Some (None, Some err)"
        and fin: "r' = None \<longrightarrow> k = length ts"
        by blast
      have 1: "filter is_test tr = map EvTest [i..<i + Suc k]"
        using ev tr by (simp add: upt_conv_Cons)
      have 2: "\<forall>j. Suc j < Suc k \<longrightarrow> ((t # ts) ! j) ctx v (test_params key) = None"
      proof (intro allI impI)
        fix j assume "Suc j < Suc k"
        then show "((t # ts) ! j) ctx v (test_params key) = None"
          using passed None by (cases j) simp_all
      qed
      have 3: "\<forall>err. 0 < Suc k \<longrightarrow> ((t # ts) ! (Suc k - 1)) ctx v (test_params key) = Some err \<longrightarrow>
                        r = Some (None, Some err)"
        using failed None r by (cases k) simp_all
      have 4: "r = None \<longrightarrow> Suc k = length (t # ts)"
        using fin r by simp
      from k have 5: "Suc k \<le> length (t # ts)" by simp
      show ?thesis
        using 1 2 3 4 5 by blast
    qed
  qed
qed

subsection \<open>Deadline expiry is not cancellation\<close>

lemma runTests_not_silent:
  "runTests ctx ts i v k = (Some r, tr) \<Longrightarrow> \<forall>cp. ctx cp \<noteq> Some Canceled \<Longrightarrow> r \<noteq> (None, None)"
proof (induction ts arbitrary: i tr)
  case Nil
  then show ?case by simp
next
  case (Cons t ts)
  then show ?case
    by (auto simp: is_canceled_def split: option.splits if_splits prod.splits)
qed

lemma verifyCreated_not_silent:
  "verifyCreated rt ctx a res opts cl vmc v k = (r, tr) \<Longrightarrow> \<forall>cp. ctx cp \<noteq> Some Canceled \<Longrightarrow>
   r \<noteq> (None, None)"
  unfolding verifyCreated_def
  by (auto simp: is_canceled_def split: option.splits if_splits prod.splits sum.splits
      dest!: runTests_not_silent)

lemma verifyCreated_wait_error:
  "waitVMReady rt ctx (vm_name v) vmc (Timeout opts) = (Some err, wtr) \<Longrightarrow>
   \<not> is_canceled (ctx AfterCreate) \<Longrightarrow> \<not> is_canceled (ctx AfterWait) \<Longrightarrow>
   fst (verifyCreated rt ctx a res opts cl vmc v k) = (None, Some err)"
  by (simp add: verifyCreated_def)

text \<open>
  Claim C10. The gates compare the context's error with \<open>context.Canceled\<close> only. For a
  context that never reports \<open>Canceled\<close> (it is live, or it has ended by deadline expiry),
  an attempt on a non-empty tag set never ends with the silent (nil, nil); and when the
  readiness wait fails, for instance because the context has expired, that failure is
  the error the attempt returns.
\<close>

theorem deadline_is_an_ordinary_error:
  assumes live: "\<forall>cp. ctx cp = None \<or> ctx cp = Some DeadlineExceeded"
    and tags: "Tags result \<noteq> []"
    and run: "verifyArtifact rt ctx artifact result options client = (out, tr)"
  shows "\<not> is_canceled (Some DeadlineExceeded) \<and>
         out \<noteq> Ret (None, None) \<and>
         (\<forall>v key ctr v' err wtr.
            createVM rt artifact (pathJoin rt (Registry options) (hd (Tags result))) =
              (Ret (Inr (v, key)), ctr) \<and>
            Create (VirtualMachine client (Namespace options)) v = Inr v' \<and>
            waitVMReady rt ctx (vm_name v') (VirtualMachine client (Namespace options))
              (Timeout options) = (Some err, wtr) \<longrightarrow>
            out = Ret (None, Some err))"
proof -
  from live have nc: "\<forall>cp. ctx cp \<noteq> Some Canceled"
    by (metis ctx_err.distinct(1) option.distinct(1) option.inject)
  then have gates: "\<not> is_canceled (ctx cp)" for cp
    by (simp add: is_canceled_def)
  have 1: "\<not> is_canceled (Some DeadlineExceeded)"
    by (simp add: is_canceled_def)
  have 2: "out \<noteq> Ret (None, None)"
    using run tags nc gates unfolding verifyArtifact_def Let_def
    by (auto simp: index_first split: if_splits prod.splits sum.splits go.splits
        dest!: verifyCreated_not_silent)
  have 3: "out = Ret (None, Some err)"
    if "createVM rt artifact (pathJoin rt (Registry options) (hd (Tags result))) =
              (Ret (Inr (v, key)), ctr)"
      and "Create (VirtualMachine client (Namespace options)) v = Inr v'"
      and "waitVMReady rt ctx (vm_name v') (VirtualMachine client (Namespace options))
              (Timeout options) = (Some err, wtr)"
    for v key ctr v' err wtr
    using run tags gates that
      verifyCreated_wait_error [where rt=rt and ctx=ctx and v=v' and opts=options and err=err
        and vmc="VirtualMachine client (Namespace options)" and a=artifact and res=result
        and cl=client and k=key and wtr=wtr]
    unfolding verifyArtifact_def Let_def
    by (auto simp: index_first split: prod.splits)
  show ?thesis
    using 1 2 3 by blast
qed

theorem deadline_is_an_ordinary_error_witness:
  "(\<forall>cp. ctx_deadline cp = None \<or> ctx_deadline cp = Some DeadlineExceeded) \<and>
   Tags unverified \<noteq> [] \<and>
   waitVMReady rt0 ctx_deadline ''fedora-ab12x'' (VirtualMachine client0 (Namespace opts0))
     (Timeout opts0) = (Some (ErrContext DeadlineExceeded), []) \<and>
   fst (verifyArtifact rt0 ctx_deadline fedora unverified opts0 client0) =
     Ret (None, Some (ErrContext DeadlineExceeded))"
proof -
  let ?run = "verifyArtifact rt0 ctx_deadline fedora unverified opts0 client0"
  have live: "\<forall>cp. ctx_deadline cp = None \<or> ctx_deadline cp = Some DeadlineExceeded"
    by (simp add: ctx_deadline_def)
  have tags: "Tags unverified \<noteq> []"
    by (simp add: unverified_def)
  have run: "?run = (fst ?run, snd ?run)" by simp
  have c: "createVM rt0 fedora (pathJoin rt0 (Registry opts0) (hd (Tags unverified))) =
             (Ret (Inr (fedora_created, ''priv'')), [EvGenerateKey])"
    by code_simp
  have cr: "Create (VirtualMachine client0 (Namespace opts0)) fedora_created = Inr fedora_created"
    by (simp add: client0_def vmc0_def)
  have name: "vm_name fedora_created = ''fedora-ab12x''"
    by (simp add: fedora_created_def fedora_vm_def)
  have w: "waitVMReady rt0 ctx_deadline (vm_name fedora_created)
             (VirtualMachine client0 (Namespace opts0)) (Timeout opts0) =
             (Some (ErrContext DeadlineExceeded), [])"
    unfolding name by code_simp
  from deadline_is_an_ordinary_error [OF live tags run] c cr w
  have "fst ?run = Ret (None, Some (ErrContext DeadlineExceeded))"
    by blast
  with live tags w show ?thesis
    by (simp add: name)
qed

subsection \<open>Public key marshalling\<close>

lemma slice_to_all_but_last:
  "slice_to s (int (length s) - 1) = (if s = [] then None else Some (butlast s))"
proof (cases "s = []")
  case True
  then show ?thesis by (simp add: slice_to_def)
next
  case False
  then have "nat (int (length s) - 1) = length s - 1" and "0 \<le> int (length s) - 1"
    by (simp_all add: Suc_leI nat_diff_distrib')
  with False show ?thesis
    by (simp add: slice_to_def butlast_conv_take)
qed

text \<open>
  Claim C9. When the public half converts to an SSH key, marshalling returns the
  authorized-key form without its final character, provided that form is not empty; when
  the form ends in a line terminator, as \<open>ssh.MarshalAuthorizedKey\<close> produces it, the result
  is the line without the terminator. On an empty form the slice expression panics.
\<close>

theorem marshallPublicKey_strips_terminator:
  assumes "NewPublicKey rt (Public rt key) = Inr sshKey"
  shows "(MarshalAuthorizedKey rt sshKey \<noteq> [] \<longrightarrow>
            marshallPublicKey rt key = Ret (Inr (butlast (MarshalAuthorizedKey rt sshKey)))) \<and>
         (\<forall>line. MarshalAuthorizedKey rt sshKey = line @ [CHR 0x0A] \<longrightarrow>
            marshallPublicKey rt key = Ret (Inr line)) \<and>
         (MarshalAuthorizedKey rt sshKey = [] \<longrightarrow>
            marshallPublicKey rt key = Panic ''slice bounds out of range'')"
  using assms
  by (auto simp: marshallPublicKey_def Let_def slice_to_all_but_last)

theorem marshallPublicKey_strips_terminator_witness:
  "NewPublicKey rt0 (Public rt0 ''priv'') = Inr ''pub'' \<and>
   MarshalAuthorizedKey rt0 ''pub'' = ''ssh-ed25519 pub'' @ [CHR 0x0A] \<and>
   marshallPublicKey rt0 ''priv'' = Ret (Inr ''ssh-ed25519 pub'')"
proof -
  have h: "NewPublicKey rt0 (Public rt0 ''priv'') = Inr ''pub''"
    by (simp add: rt0_def)
  have m: "MarshalAuthorizedKey rt0 ''pub'' = ''ssh-ed25519 pub'' @ [CHR 0x0A]"
    by (simp add: rt0_def)
  show ?thesis
    using h m marshallPublicKey_strips_terminator [OF h] by blast
qed

subsection \<open>The results channel and the merge\<close>

lemma verifyArtifact_not_blocked:
  "fst (verifyArtifact rt ctx a res opts cl) \<noteq> Blocked"
  unfolding verifyArtifact_def Let_def
  by (auto simp: createVM_def marshallPublicKey_def Let_def
      split: option.splits if_splits prod.splits sum.splits go.splits)

lemma verifyArtifact_trace_nonempty:
  "snd (verifyArtifact rt ctx a res opts cl) \<noteq> []"
  unfolding verifyArtifact_def Let_def
  by (auto simp: index_def split: option.splits if_splits prod.splits sum.splits go.splits
      dest!: createVM_trace)

lemma worker_skip:
  "results (Describe a) = None \<or> (\<exists>r. results (Describe a) = Some r \<and> Verified r) \<Longrightarrow>
   worker sys options client results a c = (Ret None, c, [])"
  by (auto simp: worker_def)

lemma worker_dispatch:
  "results (Describe a) = Some r \<Longrightarrow> \<not> Verified r \<Longrightarrow>
   snd (snd (worker sys options client results a c)) =
     snd (verifyArtifact (attempt_runtime sys a) (attempt_ctx sys a) a r options client)"
  by (auto simp: worker_def split: prod.splits go.splits option.splits)

lemma worker_sends:
  "worker sys options client results a c = (Ret e, c', tr) \<Longrightarrow>
   c' = c\<lparr>buf := buf c @ sent sys options client results a\<rparr>"
  by (auto simp: worker_def sent_def send_def
      split: prod.splits go.splits option.splits if_splits)

lemma length_sent: "length (sent sys options client results a) \<le> 1"
  by (auto simp: sent_def split: prod.splits go.splits option.splits)

lemma spawnWorkers_sends:
  "spawnWorkers (worker sys options client results) sched c = (Ret e, c', tr) \<Longrightarrow>
   c' = c\<lparr>buf := buf c @ concat (map (sent sys options client results) sched)\<rparr>"
proof (induction sched arbitrary: c e c' tr)
  case Nil
  then show ?case by simp
next
  case (Cons a sched)
  from Cons.prems obtain e1 c1 tr1 e2 tr2
    where w: "worker sys options client results a c = (Ret e1, c1, tr1)"
      and rest: "spawnWorkers (worker sys options client results) sched c1 = (Ret e2, c', tr2)"
    by (auto split: prod.splits go.splits)
  from worker_sends [OF w] Cons.IH [OF rest] show ?case
    by simp
qed

subsection \<open>The merge loop\<close>

lemma drain_untouched:
  "k \<notin> Key ` set rs \<Longrightarrow> drain l rs k = l k"
  by (induction rs arbitrary: l) auto

lemma drain_received:
  "distinct (map Key rs) \<Longrightarrow> r \<in> set rs \<Longrightarrow> drain l rs (Key r) = Some (Value r)"
proof (induction rs arbitrary: l)
  case Nil
  then show ?case by simp
next
  case (Cons x rs)
  show ?case
  proof (cases "r = x")
    case True
    with Cons.prems have "Key x \<notin> Key ` set rs" by auto
    from drain_untouched [OF this] True show ?thesis by simp
  next
    case False
    with Cons show ?thesis by auto
  qed
qed

lemma drain_order_irrelevant:
  assumes "distinct (map Key rs)" and "mset rs = mset rs'"
  shows "drain l rs = drain l rs'"
proof
  fix k
  from assms have d': "distinct (map Key rs')"
    by (metis distinct_map mset_eq_imp_distinct_iff set_mset_mset)
  from assms have s: "set rs = set rs'"
    by (metis mset_eq_setD)
  show "drain l rs k = drain l rs' k"
  proof (cases "k \<in> Key ` set rs")
    case True
    then obtain r where "r \<in> set rs" "k = Key r" by blast
    with assms(1) d' s show ?thesis
      by (simp add: drain_received)
  next
    case False
    with s show ?thesis by (simp add: drain_untouched)
  qed
qed

lemma sent_cases:
  "sent sys options client results a = [] \<or>
   (\<exists>res. sent sys options client results a = [\<lparr>Key = Describe a, Value = res\<rparr>])"
  by (simp add: sent_def split: prod.split go.split option.split)

lemma sent_key: "r \<in> set (sent sys options client results a) \<Longrightarrow> Key r = Describe a"
  using sent_cases [of sys options client results a] by auto

lemma sent_keys_concat:
  "Key ` set (concat (map (sent sys options client results) sched)) \<subseteq> Describe ` set sched"
  by (auto dest: sent_key)

lemma sent_distinct:
  "distinct (map Describe sched) \<Longrightarrow>
   distinct (map Key (concat (map (sent sys options client results) sched)))"
proof (induction sched)
  case Nil
  then show ?case by simp
next
  case (Cons a sched)
  let ?here = "sent sys options client results a"
  let ?rest = "concat (map (sent sys options client results) sched)"
  from Cons have rest: "distinct (map Key ?rest)"
    by simp
  have one: "distinct (map Key ?here)"
    using sent_cases [of sys options client results a] by auto
  have apart: "set (map Key ?here) \<inter> set (map Key ?rest) = {}"
  proof (rule ccontr)
    assume "set (map Key ?here) \<inter> set (map Key ?rest) \<noteq> {}"
    then obtain k where k1: "k \<in> Key ` set ?here" and k2: "k \<in> Key ` set ?rest"
      by auto
    from k1 have "k = Describe a"
      by (auto dest: sent_key)
    moreover from k2 sent_keys_concat [of sys options client results sched]
    have "k \<in> Describe ` set sched"
      by (rule subsetD [rotated])
    ultimately show False
      using Cons.prems by auto
  qed
  have "distinct (map Key ?here @ map Key ?rest)"
    using one rest apart by (simp only: distinct_append)
  then show ?case
    by simp
qed

lemma Run_written:
  assumes "readResultsFile sys (ResultsFile options) = Inr results"
    and "GetKubevirtClient sys = Inr client"
    and "written (Run sys options sched) = Some l'"
  shows "l' = drain results (concat (map (sent sys options client results) sched))"
proof -
  let ?c0 = "make_chan (length (CatalogRegistry sys))"
  obtain out c tr where sp: "spawnWorkers (worker sys options client results) sched ?c0 = (out, c, tr)"
    by (cases "spawnWorkers (worker sys options client results) sched ?c0")
  show ?thesis
  proof (cases out)
    case (Ret e)
    from spawnWorkers_sends [OF sp [unfolded Ret]]
    have "buf c = concat (map (sent sys options client results) sched)"
      by (simp add: make_chan_def)
    with assms sp Ret show ?thesis
      by (simp add: Run_def range_chan_def close_chan_def split: option.splits)
  next
    case (Panic p)
    with assms sp show ?thesis by (simp add: Run_def)
  next
    case Blocked
    with assms sp show ?thesis by (simp add: Run_def)
  qed
qed

lemma Run_entry_kept:
  assumes read: "readResultsFile sys (ResultsFile options) = Inr results"
    and cl: "GetKubevirtClient sys = Inr client"
    and keys: "distinct (map Describe sched)" and a: "a \<in> set sched"
    and w: "written (Run sys options sched) = Some l'"
    and quiet: "sent sys options client results a = []"
  shows "l' (Describe a) = results (Describe a)"
proof -
  let ?rs = "concat (map (sent sys options client results) sched)"
  have "Describe a \<notin> Key ` set ?rs"
  proof
    assume "Describe a \<in> Key ` set ?rs"
    then obtain a' r where a': "a' \<in> set sched" and r: "r \<in> set (sent sys options client results a')"
      and k: "Key r = Describe a"
      by auto
    from sent_key [OF r] k have "Describe a' = Describe a" by simp
    with keys a a' have "a' = a"
      by (meson distinct_map inj_onD)
    with r quiet show False by simp
  qed
  from drain_untouched [OF this] Run_written [OF read cl w] show ?thesis
    by simp
qed

lemma Run_entry_written:
  assumes read: "readResultsFile sys (ResultsFile options) = Inr results"
    and cl: "GetKubevirtClient sys = Inr client"
    and keys: "distinct (map Describe sched)" and a: "a \<in> set sched"
    and w: "written (Run sys options sched) = Some l'"
    and one: "sent sys options client results a = [r]"
  shows "l' (Describe a) = Some (Value r)"
proof -
  let ?rs = "concat (map (sent sys options client results) sched)"
  from a one have "r \<in> set ?rs" by force
  from drain_received [OF sent_distinct [OF keys] this]
  have "drain results ?rs (Key r) = Some (Value r)" .
  moreover have "Key r = Describe a"
    using one by (intro sent_key [of r sys options client results a]) simp
  ultimately show ?thesis
    using Run_written [OF read cl w] by simp
qed

subsection \<open>Cancellation\<close>

text \<open>
  Claim C3. When a gate of the state machine is reached and the context reports
  \<open>Canceled\<close> there, the attempt returns (nil, nil). The callback then sends nothing on
  the results channel and returns no error, and in a run whose catalog has distinct keys
  the ledger written at the end holds, for this artifact, exactly the entry read at the
  start.
\<close>

theorem cancellation_is_silent:
  assumes run: "verifyArtifact rt ctx a r options client = (out, tr)"
    and reached: "EvCheck cp \<in> set tr"
    and fired: "is_canceled (ctx cp)"
  shows "out = Ret (None, None) \<and>
         (\<forall>sys results c.
            attempt_runtime sys a = rt \<and> attempt_ctx sys a = ctx \<and>
            results (Describe a) = Some r \<and> \<not> Verified r \<longrightarrow>
            worker sys options client results a c = (Ret None, c, tr) \<and>
            (\<forall>sched l'.
               readResultsFile sys (ResultsFile options) = Inr results \<and>
               GetKubevirtClient sys = Inr client \<and>
               distinct (map Describe sched) \<and> a \<in> set sched \<and>
               written (Run sys options sched) = Some l' \<longrightarrow>
               l' (Describe a) = results (Describe a)))"
proof -
  from verifyArtifact_checks [OF run reached fired] have out: "out = Ret (None, None)" .
  have w: "worker sys options client results a c = (Ret None, c, tr)"
    and s: "sent sys options client results a = []"
    if "attempt_runtime sys a = rt" "attempt_ctx sys a = ctx"
      "results (Describe a) = Some r" "\<not> Verified r"
    for sys results c
    using that run out by (simp_all add: worker_def sent_def)
  have "l' (Describe a) = results (Describe a)"
    if "attempt_runtime sys a = rt" "attempt_ctx sys a = ctx"
      "results (Describe a) = Some r" "\<not> Verified r"
      "readResultsFile sys (ResultsFile options) = Inr results"
      "GetKubevirtClient sys = Inr client"
      "distinct (map Describe sched)" "a \<in> set sched"
      "written (Run sys options sched) = Some l'"
    for sys results sched l'
    using Run_entry_kept [OF that(5) that(6) that(7) that(8) that(9) s [where sys=sys and results=results, OF that(1) that(2) that(3) that(4)]] .
  with out w show ?thesis
    by blast
qed

theorem cancellation_is_silent_witness:
  "EvCheck (AfterTest 0) \<in>
     set (snd (verifyArtifact rt0 (ctx_at (AfterTest 0) Canceled) fedora unverified opts0 client0)) \<and>
   is_canceled (ctx_at (AfterTest 0) Canceled (AfterTest 0)) \<and>
   fst (verifyArtifact rt0 (ctx_at (AfterTest 0) Canceled) fedora unverified opts0 client0) =
     Ret (None, None) \<and>
   ledger0 (Describe fedora) = Some unverified \<and> \<not> Verified unverified \<and>
   fst (worker (sys0 ledger0\<lparr>attempt_ctx := (\<lambda>a. ctx_at (AfterTest 0) Canceled)\<rparr>) opts0 client0
          ledger0 fedora (make_chan 1)) = Ret None \<and>
   fst (snd (worker (sys0 ledger0\<lparr>attempt_ctx := (\<lambda>a. ctx_at (AfterTest 0) Canceled)\<rparr>) opts0
          client0 ledger0 fedora (make_chan 1))) = make_chan 1 \<and>
   map_option (\<lambda>l. l (Describe fedora))
     (written (Run (sys0 ledger0\<lparr>attempt_ctx := (\<lambda>a. ctx_at (AfterTest 0) Canceled)\<rparr>) opts0
                [fedora])) = Some (Some unverified)"
proof -
  let ?ctx = "ctx_at (AfterTest 0) Canceled"
  let ?sys = "sys0 ledger0\<lparr>attempt_ctx := (\<lambda>a. ?ctx)\<rparr>"
  let ?run = "verifyArtifact rt0 ?ctx fedora unverified opts0 client0"
  have run: "?run = (fst ?run, snd ?run)" by simp
  have reached: "EvCheck (AfterTest 0) \<in> set (snd ?run)" by code_simp
  have fired: "is_canceled (?ctx (AfterTest 0))"
    by (simp add: ctx_at_def is_canceled_def)
  have entry: "ledger0 (Describe fedora) = Some unverified"
    by (simp add: ledger0_def fedora_def)
  have nv: "\<not> Verified unverified"
    by (simp add: unverified_def)
  have rt: "attempt_runtime ?sys fedora = rt0" and cx: "attempt_ctx ?sys fedora = ?ctx"
    by (simp_all add: sys0_def)
  have rd: "readResultsFile ?sys (ResultsFile opts0) = Inr ledger0"
    and cl: "GetKubevirtClient ?sys = Inr client0"
    by (simp_all add: sys0_def)
  have "\<not> Option.is_none (written (Run ?sys opts0 [fedora]))"
    by code_simp
  then have wr: "written (Run ?sys opts0 [fedora]) =
              Some (the (written (Run ?sys opts0 [fedora])))"
    by (simp add: Option.is_none_def)
  note inst = cancellation_is_silent [OF run reached fired]
  from inst have out: "fst ?run = Ret (None, None)" by blast
  have hyp: "attempt_runtime ?sys fedora = rt0 \<and> attempt_ctx ?sys fedora = ?ctx \<and>
             ledger0 (Describe fedora) = Some unverified \<and> \<not> Verified unverified"
    using rt cx entry nv by blast
  note silent = inst [THEN conjunct2, rule_format, of ?sys ledger0 "make_chan 1", OF hyp]
  from silent
  have w: "worker ?sys opts0 client0 ledger0 fedora (make_chan 1) = (Ret None, make_chan 1, snd ?run)"
    by blast
  have sched: "distinct (map Describe [fedora]) \<and> fedora \<in> set [fedora]"
    by simp
  from silent have "\<forall>sched l'.
         readResultsFile ?sys (ResultsFile opts0) = Inr ledger0 \<and>
         GetKubevirtClient ?sys = Inr client0 \<and>
         distinct (map Describe sched) \<and> fedora \<in> set sched \<and>
         written (Run ?sys opts0 sched) = Some l' \<longrightarrow>
         l' (Describe fedora) = ledger0 (Describe fedora)"
    by blast
  from this [rule_format, of "[fedora]" "the (written (Run ?sys opts0 [fedora]))"] rd cl sched wr
  have "the (written (Run ?sys opts0 [fedora])) (Describe fedora) = ledger0 (Describe fedora)"
    by blast
  then have l: "map_option (\<lambda>l. l (Describe fedora)) (written (Run ?sys opts0 [fedora])) =
      Some (Some unverified)"
    by (subst wr) (simp add: entry)
  show ?thesis
    using reached fired out entry nv w l by simp
qed

subsection \<open>Which artifacts are dispatched\<close>

lemma verifyArtifact_success_creates:
  "verifyArtifact rt ctx a r options client = (Ret (Some res, e), tr) \<Longrightarrow>
   \<exists>v. EvCreate v \<in> set tr"
  unfolding verifyArtifact_def Let_def
  by (auto split: option.splits if_splits prod.splits sum.splits go.splits)

lemma verifyArtifact_success_tags:
  "verifyArtifact rt ctx a r options client = (Ret (Some res, e), tr) \<Longrightarrow>
   res = \<lparr>Tags = Tags r, Verified = True\<rparr> \<and> e = None \<and> Tags r \<noteq> []"
  unfolding verifyArtifact_def Let_def
  by (clarsimp split: option.splits if_splits prod.splits sum.splits go.splits
      dest!: verifyCreated_success)

text \<open>
  Claim C1, as stated, fails: an artifact without a ledger entry is not dispatched. The
  callback returns at once, no VM is created, and the run leaves the trace empty.
\<close>

theorem no_ledger_entry_no_attempt:
  "empty_ledger (Describe fedora) = None \<and>
   worker (sys0 empty_ledger) opts0 client0 empty_ledger fedora (make_chan 1) =
     (Ret None, make_chan 1, []) \<and>
   run_trace (Run (sys0 empty_ledger) opts0 [fedora]) = [] \<and>
   written_entry (Run (sys0 empty_ledger) opts0 [fedora]) (Describe fedora) = Some None"
proof -
  have 1: "empty_ledger (Describe fedora) = None"
    by (simp add: empty_ledger_def)
  have 2: "worker (sys0 empty_ledger) opts0 client0 empty_ledger fedora (make_chan 1) =
     (Ret None, make_chan 1, [])"
    using 1 by (simp add: worker_def)
  have 3: "run_trace (Run (sys0 empty_ledger) opts0 [fedora]) = []"
    by code_simp
  have 4: "written_entry (Run (sys0 empty_ledger) opts0 [fedora]) (Describe fedora) = Some None"
    by code_simp
  from 1 2 3 4 show ?thesis by blast
qed

text \<open>
  Claim C1, amended. The callback skips an artifact exactly when the ledger has no entry
  for it or marks it verified: then it returns at once with an empty trace, and otherwise
  it runs the verification attempt on the ledger's entry. An attempt that succeeds has
  created a VM and returns the entry's tags with \<open>Verified = true\<close>; that result is sent,
  and a run over a catalog with distinct keys writes it to the ledger under the
  artifact's key.
\<close>

theorem dispatch_rule:
  "(snd (snd (worker sys options client results a c)) = [] \<longleftrightarrow>
      results (Describe a) = None \<or> (\<exists>r. results (Describe a) = Some r \<and> Verified r)) \<and>
   (results (Describe a) = None \<or> (\<exists>r. results (Describe a) = Some r \<and> Verified r) \<longrightarrow>
      worker sys options client results a c = (Ret None, c, [])) \<and>
   (\<forall>r res e tr.
      results (Describe a) = Some r \<and> \<not> Verified r \<and>
      verifyArtifact (attempt_runtime sys a) (attempt_ctx sys a) a r options client =
        (Ret (Some res, e), tr) \<longrightarrow>
      Tags r \<noteq> [] \<and> res = \<lparr>Tags = Tags r, Verified = True\<rparr> \<and> e = None \<and>
      (\<exists>v. EvCreate v \<in> set tr) \<and>
      snd (snd (worker sys options client results a c)) = tr \<and>
      sent sys options client results a = [\<lparr>Key = Describe a, Value = res\<rparr>] \<and>
      (\<forall>sched l'.
         readResultsFile sys (ResultsFile options) = Inr results \<and>
         GetKubevirtClient sys = Inr client \<and>
         distinct (map Describe sched) \<and> a \<in> set sched \<and>
         written (Run sys options sched) = Some l' \<longrightarrow>
         l' (Describe a) = Some \<lparr>Tags = Tags r, Verified = True\<rparr>))"
proof -
  let ?skip = "results (Describe a) = None \<or> (\<exists>r. results (Describe a) = Some r \<and> Verified r)"
  have skip: "worker sys options client results a c = (Ret None, c, [])" if ?skip
    using that by (rule worker_skip)
  have run: "snd (snd (worker sys options client results a c)) \<noteq> []" if "\<not> ?skip"
  proof -
    from that obtain r where r: "results (Describe a) = Some r" "\<not> Verified r"
      by auto
    from worker_dispatch [where results=results and a=a and r=r and sys=sys
        and options=options and client=client and c=c, OF r]
      verifyArtifact_trace_nonempty show ?thesis
      by simp
  qed
  have iff: "snd (snd (worker sys options client results a c)) = [] \<longleftrightarrow> ?skip"
  proof
    assume "snd (snd (worker sys options client results a c)) = []"
    with run show ?skip by blast
  next
    assume ?skip
    from skip [OF this] show "snd (snd (worker sys options client results a c)) = []"
      by simp
  qed
  have success: "Tags r \<noteq> [] \<and> res = \<lparr>Tags = Tags r, Verified = True\<rparr> \<and> e = None \<and>
      (\<exists>v. EvCreate v \<in> set tr) \<and>
      snd (snd (worker sys options client results a c)) = tr \<and>
      sent sys options client results a = [\<lparr>Key = Describe a, Value = res\<rparr>] \<and>
      (\<forall>sched l'.
         readResultsFile sys (ResultsFile options) = Inr results \<and>
         GetKubevirtClient sys = Inr client \<and>
         distinct (map Describe sched) \<and> a \<in> set sched \<and>
         written (Run sys options sched) = Some l' \<longrightarrow>
         l' (Describe a) = Some \<lparr>Tags = Tags r, Verified = True\<rparr>)"
    if entry: "results (Describe a) = Some r" and nv: "\<not> Verified r"
      and v: "verifyArtifact (attempt_runtime sys a) (attempt_ctx sys a) a r options client =
        (Ret (Some res, e), tr)"
    for r res e tr
  proof -
    note t = verifyArtifact_success_tags [OF v]
    note cr = verifyArtifact_success_creates [OF v]
    have tr: "snd (snd (worker sys options client results a c)) = tr"
      using worker_dispatch [where results=results and a=a and r=r and sys=sys
          and options=options and client=client and c=c, OF entry nv] v by simp
    have s: "sent sys options client results a = [\<lparr>Key = Describe a, Value = res\<rparr>]"
      using entry nv v by (simp add: sent_def)
    have "l' (Describe a) = Some \<lparr>Tags = Tags r, Verified = True\<rparr>"
      if "readResultsFile sys (ResultsFile options) = Inr results"
        "GetKubevirtClient sys = Inr client"
        "distinct (map Describe sched)" "a \<in> set sched"
        "written (Run sys options sched) = Some l'"
      for sched l'
      using Run_entry_written [where results=results and sys=sys and options=options
          and sched=sched and a=a and client=client, OF that s] t by simp
    with t cr tr s show ?thesis
      by blast
  qed
  from iff skip success show ?thesis
    by blast
qed

theorem dispatch_rule_witness:
  "ledger0 (Describe fedora) = Some unverified \<and> \<not> Verified unverified \<and>
   fst (verifyArtifact (attempt_runtime (sys0 ledger0) fedora) (attempt_ctx (sys0 ledger0) fedora)
          fedora unverified opts0 client0) =
     Ret (Some \<lparr>Tags = [''fedora:39''], Verified = True\<rparr>, None) \<and>
   snd (snd (worker (sys0 ledger0) opts0 client0 ledger0 fedora (make_chan 1))) \<noteq> [] \<and>
   EvCreate fedora_created \<in>
     set (snd (snd (worker (sys0 ledger0) opts0 client0 ledger0 fedora (make_chan 1)))) \<and>
   Timeout opts0 = 600 \<and>
   sent (sys0 ledger0) opts0 client0 ledger0 fedora =
     [\<lparr>Key = ''fedora'', Value = \<lparr>Tags = [''fedora:39''], Verified = True\<rparr>\<rparr>] \<and>
   map_option (\<lambda>l. l (Describe fedora)) (written (Run (sys0 ledger0) opts0 [fedora])) =
     Some (Some \<lparr>Tags = [''fedora:39''], Verified = True\<rparr>)"
proof -
  let ?sys = "sys0 ledger0"
  let ?run = "verifyArtifact (attempt_runtime ?sys fedora) (attempt_ctx ?sys fedora) fedora
                unverified opts0 client0"
  let ?done = "\<lparr>Tags = [''fedora:39''], Verified = True\<rparr>"
  have entry: "ledger0 (Describe fedora) = Some unverified"
    by (simp add: ledger0_def fedora_def)
  have nv: "\<not> Verified unverified"
    by (simp add: unverified_def)
  have tags: "Tags unverified = [''fedora:39'']"
    by (simp add: unverified_def)
  have key: "Describe fedora = ''fedora''"
    by (simp add: fedora_def)
  have out: "fst ?run = Ret (Some ?done, None)"
    by code_simp
  then have run: "?run = (Ret (Some ?done, None), snd ?run)"
    by (simp add: prod_eq_iff)
  have made: "EvCreate fedora_created \<in> set (snd ?run)"
    by code_simp
  have tmo: "Timeout opts0 = 600"
    by (simp add: opts0_def default_options_def)
  have rd: "readResultsFile ?sys (ResultsFile opts0) = Inr ledger0"
    and cl: "GetKubevirtClient ?sys = Inr client0"
    by (simp_all add: sys0_def)
  have "\<not> Option.is_none (written (Run ?sys opts0 [fedora]))"
    by code_simp
  then have wr: "written (Run ?sys opts0 [fedora]) =
              Some (the (written (Run ?sys opts0 [fedora])))"
    by (simp add: Option.is_none_def)
  note inst = dispatch_rule [of ?sys opts0 client0 ledger0 fedora "make_chan 1"]
  from inst entry nv have nonempty:
    "snd (snd (worker ?sys opts0 client0 ledger0 fedora (make_chan 1))) \<noteq> []"
    by auto
  have hyp: "ledger0 (Describe fedora) = Some unverified \<and> \<not> Verified unverified \<and>
             ?run = (Ret (Some ?done, None), snd ?run)"
    using entry nv run by blast
  note success = inst [THEN conjunct2, THEN conjunct2, rule_format, OF hyp]
  from success
  have tr: "snd (snd (worker ?sys opts0 client0 ledger0 fedora (make_chan 1))) = snd ?run"
    and s: "sent ?sys opts0 client0 ledger0 fedora = [\<lparr>Key = Describe fedora, Value = ?done\<rparr>]"
    by blast+
  have sched: "distinct (map Describe [fedora]) \<and> fedora \<in> set [fedora]"
    by simp
  from success have "\<forall>sched l'.
         readResultsFile ?sys (ResultsFile opts0) = Inr ledger0 \<and>
         GetKubevirtClient ?sys = Inr client0 \<and>
         distinct (map Describe sched) \<and> fedora \<in> set sched \<and>
         written (Run ?sys opts0 sched) = Some l' \<longrightarrow>
         l' (Describe fedora) = Some \<lparr>Tags = Tags unverified, Verified = True\<rparr>"
    by blast
  from this [rule_format, of "[fedora]" "the (written (Run ?sys opts0 [fedora]))"] rd cl sched wr
  have "the (written (Run ?sys opts0 [fedora])) (Describe fedora) =
          Some \<lparr>Tags = Tags unverified, Verified = True\<rparr>"
    by blast
  then have l: "map_option (\<lambda>l. l (Describe fedora)) (written (Run ?sys opts0 [fedora])) =
      Some (Some ?done)"
    by (subst wr) (simp add: tags)
  show ?thesis
    using entry nv out nonempty made tr tmo s l by (simp add: key)
qed

subsection \<open>An attempt that reaches its tests\<close>

lemma runTests_no_gets:
  "runTests ctx ts i v k = (r, tr) \<Longrightarrow>
   filter is_get tr = [] \<and> (\<forall>n. EvGetVMI n \<notin> set tr)"
proof (induction ts arbitrary: i r tr)
  case Nil
  then show ?case by simp
next
  case (Cons t ts)
  then show ?case
    by (auto split: option.splits if_splits prod.splits)
qed

lemma verifyArtifact_at_tests:
  assumes reach: "reaches_tests rt ctx a res opts cl v key v' i"
  shows "verifyArtifact rt ctx a res opts cl =
    (Ret (case fst (runTests ctx (Tests a) 0 i key) of
            Some r \<Rightarrow> r
          | None \<Rightarrow> (Some \<lparr>Tags = Tags res, Verified = True\<rparr>, None)),
     [EvGenerateKey, EvCheck BeforeCreate, EvLog LvInfo ''Creating VM'' None, EvCreate v,
      EvCheck AfterCreate, EvLog LvInfo ''Waiting for VM to be ready'' None]
     @ snd (waitVMReady rt ctx (vm_name v') (VirtualMachine cl (Namespace opts)) (Timeout opts))
     @ [EvGetVMI (vm_name v'), EvCheck AfterGetVMI, EvLog LvInfo ''Running tests on VMI'' None]
     @ snd (runTests ctx (Tests a) 0 i key)
     @ (case fst (runTests ctx (Tests a) 0 i key) of
          Some r \<Rightarrow> []
        | None \<Rightarrow> [EvLog LvInfo ''Tests successful'' None])
     @ deferredDelete (VirtualMachine cl (Namespace opts)) v')"
proof -
  let ?vmc = "VirtualMachine cl (Namespace opts)"
  let ?img = "pathJoin rt (Registry opts) (hd (Tags res))"
  from reach have tags: "Tags res \<noteq> []"
    and c: "fst (createVM rt a ?img) = Ret (Inr (v, key))"
    and g1: "\<not> is_canceled (ctx BeforeCreate)"
    and cr: "Create ?vmc v = Inr v'"
    and g2: "\<not> is_canceled (ctx AfterCreate)"
    and w: "fst (waitVMReady rt ctx (vm_name v') ?vmc (Timeout opts)) = None"
    and gi: "GetVMI (VirtualMachineInstance cl (Namespace opts)) (vm_name v') = Inr i"
    and g3: "\<not> is_canceled (ctx AfterGetVMI)"
    by (simp_all add: reaches_tests_def)
  obtain ctr where c': "createVM rt a ?img = (Ret (Inr (v, key)), ctr)"
    using c by (cases "createVM rt a ?img") simp
  from createVM_trace [OF c'] have ctr: "ctr = [EvGenerateKey]" .
  obtain wtr where w': "waitVMReady rt ctx (vm_name v') ?vmc (Timeout opts) = (None, wtr)"
    using w by (cases "waitVMReady rt ctx (vm_name v') ?vmc (Timeout opts)") simp
  obtain r' ttr where t: "runTests ctx (Tests a) 0 i key = (r', ttr)"
    by (cases "runTests ctx (Tests a) 0 i key")
  have vc: "verifyCreated rt ctx a res opts cl ?vmc v' key =
    ((case r' of Some r \<Rightarrow> r | None \<Rightarrow> (Some \<lparr>Tags = Tags res, Verified = True\<rparr>, None)),
     [EvCheck AfterCreate, EvLog LvInfo ''Waiting for VM to be ready'' None] @ wtr
     @ [EvGetVMI (vm_name v'), EvCheck AfterGetVMI, EvLog LvInfo ''Running tests on VMI'' None]
     @ ttr @ (case r' of Some r \<Rightarrow> [] | None \<Rightarrow> [EvLog LvInfo ''Tests successful'' None]))"
    using g2 w' gi g3 t by (cases r') (simp_all add: verifyCreated_def)
  show ?thesis
    using tags g1 cr
    by (simp add: verifyArtifact_def index_first c' ctr vc w' t)
qed

lemma verifyArtifact_tests_reached:
  assumes run: "verifyArtifact rt ctx a res opts cl = (out, tr)"
    and some: "filter is_test tr \<noteq> [] \<or> (\<exists>r e. out = Ret (Some r, e))"
  shows "\<exists>v key v' i. reaches_tests rt ctx a res opts cl v key v' i"
proof (rule ccontr)
  assume none: "\<nexists>v key v' i. reaches_tests rt ctx a res opts cl v key v' i"
  let ?vmc = "VirtualMachine cl (Namespace opts)"
  let ?img = "pathJoin rt (Registry opts) (hd (Tags res))"
  have "filter is_test tr = [] \<and> (\<forall>r e. out \<noteq> Ret (Some r, e))"
  proof (cases "\<exists>v key v'. Tags res \<noteq> [] \<and> fst (createVM rt a ?img) = Ret (Inr (v, key)) \<and>
                  \<not> is_canceled (ctx BeforeCreate) \<and> Create ?vmc v = Inr v'")
    case False
    then show ?thesis
      using run unfolding verifyArtifact_def Let_def
      by (auto simp: index_first split: if_splits prod.splits sum.splits go.splits
          dest!: createVM_trace)
  next
    case True
    then obtain v key v' where tags: "Tags res \<noteq> []"
      and c: "fst (createVM rt a ?img) = Ret (Inr (v, key))"
      and g1: "\<not> is_canceled (ctx BeforeCreate)" and cr: "Create ?vmc v = Inr v'"
      by blast
    obtain ctr where c': "createVM rt a ?img = (Ret (Inr (v, key)), ctr)"
      using c by (cases "createVM rt a ?img") simp
    from createVM_trace [OF c'] have ctr: "ctr = [EvGenerateKey]" .
    obtain r tr' where vc: "verifyCreated rt ctx a res opts cl ?vmc v' key = (r, tr')"
      by (cases "verifyCreated rt ctx a res opts cl ?vmc v' key")
    from run tags c' g1 cr vc have out: "out = Ret r" and ev: "filter is_test tr = filter is_test tr'"
      unfolding verifyArtifact_def Let_def
      by (auto simp: index_first ctr)
    from none tags c g1 cr
    have stop: "is_canceled (ctx AfterCreate) \<or>
                fst (waitVMReady rt ctx (vm_name v') ?vmc (Timeout opts)) \<noteq> None \<or>
                (\<forall>i. GetVMI (VirtualMachineInstance cl (Namespace opts)) (vm_name v') \<noteq> Inr i) \<or>
                is_canceled (ctx AfterGetVMI)"
      by (auto simp: reaches_tests_def)
    obtain werr wtr where w: "waitVMReady rt ctx (vm_name v') ?vmc (Timeout opts) = (werr, wtr)"
      by (cases "waitVMReady rt ctx (vm_name v') ?vmc (Timeout opts)")
    from waitVMReady_trace [OF w] have wt: "filter is_test wtr = []"
      by auto
    from stop vc w wt have "filter is_test tr' = [] \<and> fst r = None"
      unfolding verifyCreated_def
      by (auto split: option.splits if_splits sum.splits)
    with out ev show ?thesis
      by auto
  qed
  with some show False
    by blast
qed

lemma runTests_skip:
  assumes "j \<le> length ts"
    and "\<forall>m<j. (ts ! m) ctx v (test_params key) = None \<and> \<not> is_canceled (ctx (AfterTest (i + m)))"
  shows "fst (runTests ctx ts i v key) = fst (runTests ctx (drop j ts) (i + j) v key) \<and>
         filter is_test (snd (runTests ctx ts i v key)) =
           map EvTest [i..<i + j] @ filter is_test (snd (runTests ctx (drop j ts) (i + j) v key))"
  using assms
proof (induction j arbitrary: ts i)
  case 0
  then show ?case by simp
next
  case (Suc j)
  from Suc.prems(1) obtain t ts' where ts: "ts = t # ts'" and j: "j \<le> length ts'"
    by (cases ts) auto
  from Suc.prems(2) have here: "t ctx v (test_params key) = None"
    "\<not> is_canceled (ctx (AfterTest i))"
    by (auto simp: ts dest: spec [of _ 0])
  have later: "\<forall>m<j. (ts' ! m) ctx v (test_params key) = None \<and>
                 \<not> is_canceled (ctx (AfterTest (Suc i + m)))"
  proof (intro allI impI)
    fix m assume "m < j"
    then have "Suc m < Suc j" by simp
    with Suc.prems(2) have "(ts ! Suc m) ctx v (test_params key) = None \<and>
        \<not> is_canceled (ctx (AfterTest (i + Suc m)))"
      by blast
    then show "(ts' ! m) ctx v (test_params key) = None \<and>
        \<not> is_canceled (ctx (AfterTest (Suc i + m)))"
      by (simp add: ts)
  qed
  note step = runTests_Cons_next [where t=t and ctx=ctx and v=v and key=key and ts=ts' and i=i,
      OF here]
  have seg: "[i..<i + Suc j] = i # [Suc i..<Suc i + j]"
    by (simp add: upt_conv_Cons)
  from Suc.IH [OF j later] show ?case
    unfolding ts step seg by (simp del: runTests.simps)
qed

lemma runTests_stops_with_error:
  assumes j: "j < length ts"
    and before: "\<forall>m<j. (ts ! m) ctx v (test_params key) = None \<and>
                   \<not> is_canceled (ctx (AfterTest (i + m)))"
    and fails: "(ts ! j) ctx v (test_params key) = Some err"
  shows "fst (runTests ctx ts i v key) = Some (None, Some err) \<and>
         filter is_test (snd (runTests ctx ts i v key)) = map EvTest [i..<i + Suc j]"
proof -
  from j have d: "drop j ts = (ts ! j) # drop (Suc j) ts"
    by (simp add: Cons_nth_drop_Suc)
  from j have "j \<le> length ts" by simp
  from runTests_skip [OF this before]
    runTests_Cons_fail [where t="ts ! j" and ctx=ctx and v=v and key=key
      and ts="drop (Suc j) ts" and i="i + j", OF fails]
  show ?thesis
    unfolding d by (simp del: runTests.simps)
qed

lemma runTests_stops_cancelled:
  assumes j: "j < length ts"
    and before: "\<forall>m<j. (ts ! m) ctx v (test_params key) = None \<and>
                   \<not> is_canceled (ctx (AfterTest (i + m)))"
    and passes: "(ts ! j) ctx v (test_params key) = None"
    and fired: "is_canceled (ctx (AfterTest (i + j)))"
  shows "fst (runTests ctx ts i v key) = Some (None, None) \<and>
         filter is_test (snd (runTests ctx ts i v key)) = map EvTest [i..<i + Suc j]"
proof -
  from j have d: "drop j ts = (ts ! j) # drop (Suc j) ts"
    by (simp add: Cons_nth_drop_Suc)
  from j have "j \<le> length ts" by simp
  from runTests_skip [OF this before]
    runTests_Cons_cancel [where t="ts ! j" and ctx=ctx and v=v and key=key
      and ts="drop (Suc j) ts" and i="i + j", OF passes fired]
  show ?thesis
    unfolding d by (simp del: runTests.simps)
qed

lemma runTests_runs_all:
  assumes "\<forall>m<length ts. (ts ! m) ctx v (test_params key) = None \<and>
             \<not> is_canceled (ctx (AfterTest (i + m)))"
  shows "fst (runTests ctx ts i v key) = None \<and>
         filter is_test (snd (runTests ctx ts i v key)) = map EvTest [i..<i + length ts]"
  using runTests_skip [OF le_refl assms] by simp

lemma waitVMReady_filters:
  "filter is_test (snd (waitVMReady rt ctx n c t)) = []"
  "filter is_create (snd (waitVMReady rt ctx n c t)) = []"
  "filter is_get (snd (waitVMReady rt ctx n c t)) = snd (waitVMReady rt ctx n c t)"
  "EvGetVMI m \<notin> set (snd (waitVMReady rt ctx n c t))"
  "set (snd (waitVMReady rt ctx n c t)) \<subseteq> {EvGetVM n}"
  by (auto simp: waitVMReady_def split: prod.splits)

lemma verifyArtifact_at_tests_events:
  assumes reach: "reaches_tests rt ctx a res opts cl v key v' i"
    and run: "verifyArtifact rt ctx a res opts cl = (out, tr)"
  shows "out = Ret (case fst (runTests ctx (Tests a) 0 i key) of
                      Some r \<Rightarrow> r
                    | None \<Rightarrow> (Some \<lparr>Tags = Tags res, Verified = True\<rparr>, None))"
    and "filter is_test tr = filter is_test (snd (runTests ctx (Tests a) 0 i key))"
    and "filter is_create tr = [EvCreate v]"
    and "filter is_get tr =
           snd (waitVMReady rt ctx (vm_name v') (VirtualMachine cl (Namespace opts)) (Timeout opts))"
    and "EvGetVMI n \<in> set tr \<longleftrightarrow> n = vm_name v'"
proof -
  obtain r' ttr where t: "runTests ctx (Tests a) 0 i key = (r', ttr)"
    by (cases "runTests ctx (Tests a) 0 i key")
  note nc = runTests_no_cluster_calls [OF t] and ng = runTests_no_gets [OF t]
  note eq = verifyArtifact_at_tests [OF reach, unfolded run t fst_conv snd_conv]
  from eq show "out = Ret (case fst (runTests ctx (Tests a) 0 i key) of
                      Some r \<Rightarrow> r
                    | None \<Rightarrow> (Some \<lparr>Tags = Tags res, Verified = True\<rparr>, None))"
    by (simp add: t)
  from eq show "filter is_test tr = filter is_test (snd (runTests ctx (Tests a) 0 i key))"
    by (cases r') (simp_all add: t waitVMReady_filters)
  from eq nc show "filter is_create tr = [EvCreate v]"
    by (cases r') (simp_all add: waitVMReady_filters)
  from eq ng show "filter is_get tr =
           snd (waitVMReady rt ctx (vm_name v') (VirtualMachine cl (Namespace opts)) (Timeout opts))"
    by (cases r') (simp_all add: waitVMReady_filters deferredDelete_def split: option.splits)
  from eq ng show "EvGetVMI n \<in> set tr \<longleftrightarrow> n = vm_name v'"
    by (cases r') (auto simp: waitVMReady_filters deferredDelete_def split: option.splits)
qed

lemma first_stop:
  fixes n :: nat
  assumes "\<not> (\<forall>m<n. P m)"
  shows "\<exists>j<n. (\<forall>m<j. P m) \<and> \<not> P j"
proof -
  from assms obtain m where m: "m < n" "\<not> P m" by blast
  then have "\<exists>j. \<not> P j" by blast
  then obtain j where j: "\<not> P j" "\<forall>m<j. \<not> \<not> P m"
    unfolding exists_least_iff [of "\<lambda>m. \<not> P m"] by blast
  have "j \<le> m"
  proof (rule ccontr)
    assume "\<not> j \<le> m"
    then have "m < j" by simp
    with j(2) m(2) show False by blast
  qed
  with m(1) j show ?thesis
    by (intro exI [of _ j]) simp
qed

text \<open>
  Claim C4. The test functions an attempt invokes are an initial segment of the artifact's
  declared tests, in their declared order, and tests are invoked only by an attempt that has
  reached its test loop. For such an attempt the loop is determined: the first test that
  returns an error ends the attempt with exactly that error, and the tests invoked are
  those up to and including it, so no later test is invoked; a gate that fires after a
  passing test ends the attempt silently at that test; and when every test passes, all
  declared tests have been invoked and the attempt succeeds. A successful attempt has
  therefore invoked every declared test, each of which passed.
\<close>

theorem tests_sequential:
  assumes run: "verifyArtifact rt ctx artifact result options client = (out, tr)"
  shows "(\<exists>k \<le> length (Tests artifact).
            filter is_test tr = map EvTest [0..<k] \<and>
            (0 < k \<longrightarrow>
               (\<exists>v key v' i. reaches_tests rt ctx artifact result options client v key v' i))) \<and>
         (\<forall>v key v' i. reaches_tests rt ctx artifact result options client v key v' i \<longrightarrow>
            (\<forall>j err. j < length (Tests artifact) \<and>
                (\<forall>m<j. test_continues ctx artifact i key m) \<and>
                (Tests artifact ! j) ctx i (test_params key) = Some err \<longrightarrow>
                out = Ret (None, Some err) \<and> filter is_test tr = map EvTest [0..<Suc j]) \<and>
            (\<forall>j. j < length (Tests artifact) \<and>
                (\<forall>m<j. test_continues ctx artifact i key m) \<and>
                (Tests artifact ! j) ctx i (test_params key) = None \<and>
                is_canceled (ctx (AfterTest j)) \<longrightarrow>
                out = Ret (None, None) \<and> filter is_test tr = map EvTest [0..<Suc j]) \<and>
            ((\<forall>m<length (Tests artifact). test_continues ctx artifact i key m) \<longrightarrow>
                out = Ret (Some \<lparr>Tags = Tags result, Verified = True\<rparr>, None) \<and>
                filter is_test tr = map EvTest [0..<length (Tests artifact)])) \<and>
         (\<forall>res e. out = Ret (Some res, e) \<longrightarrow>
            filter is_test tr = map EvTest [0..<length (Tests artifact)] \<and>
            (\<exists>v key v' i. reaches_tests rt ctx artifact result options client v key v' i \<and>
               (\<forall>m<length (Tests artifact). test_continues ctx artifact i key m)))"
proof -
  let ?ts = "Tests artifact"
  let ?reach = "reaches_tests rt ctx artifact result options client"
  have cont: "test_continues ctx artifact i key m \<longleftrightarrow>
      (?ts ! m) ctx i (test_params key) = None \<and> \<not> is_canceled (ctx (AfterTest (0 + m)))"
    for i key m
    by (simp add: test_continues_def)
  have err: "out = Ret (None, Some err) \<and> filter is_test tr = map EvTest [0..<Suc j]"
    if reach: "?reach v key v' i" and j: "j < length ?ts"
      and before: "\<forall>m<j. test_continues ctx artifact i key m"
      and fails: "(?ts ! j) ctx i (test_params key) = Some err"
    for v key v' i j err
    using verifyArtifact_at_tests_events(1,2) [OF reach run]
      runTests_stops_with_error [OF j before [unfolded cont] fails]
    by simp
  have cancel: "out = Ret (None, None) \<and> filter is_test tr = map EvTest [0..<Suc j]"
    if reach: "?reach v key v' i" and j: "j < length ?ts"
      and before: "\<forall>m<j. test_continues ctx artifact i key m"
      and passes: "(?ts ! j) ctx i (test_params key) = None"
      and fired: "is_canceled (ctx (AfterTest j))"
    for v key v' i j
    using verifyArtifact_at_tests_events(1,2) [OF reach run]
      runTests_stops_cancelled [where i=0, OF j before [unfolded cont] passes] fired
    by simp
  have all: "out = Ret (Some \<lparr>Tags = Tags result, Verified = True\<rparr>, None) \<and>
             filter is_test tr = map EvTest [0..<length ?ts]"
    if reach: "?reach v key v' i" and every: "\<forall>m<length ?ts. test_continues ctx artifact i key m"
    for v key v' i
    using verifyArtifact_at_tests_events(1,2) [OF reach run]
      runTests_runs_all [OF every [unfolded cont]]
    by simp
  have segment: "\<exists>k \<le> length ?ts. filter is_test tr = map EvTest [0..<k] \<and>
                   (0 < k \<longrightarrow> (\<exists>v key v' i. ?reach v key v' i))"
  proof (cases "filter is_test tr = []")
    case True
    then show ?thesis by (intro exI [of _ 0]) simp
  next
    case False
    with verifyArtifact_tests_reached [OF run] obtain v key v' i where reach: "?reach v key v' i"
      by blast
    obtain r' ttr where t: "runTests ctx ?ts 0 i key = (r', ttr)"
      by (cases "runTests ctx ?ts 0 i key")
    from runTests_order [OF t] obtain k where "k \<le> length ?ts"
      "filter is_test ttr = map EvTest [0..<0 + k]"
      by blast
    with verifyArtifact_at_tests_events(2) [OF reach run] t reach show ?thesis
      by (intro exI [of _ k]) auto
  qed
  have success: "filter is_test tr = map EvTest [0..<length ?ts] \<and>
      (\<exists>v key v' i. ?reach v key v' i \<and> (\<forall>m<length ?ts. test_continues ctx artifact i key m))"
    if ok: "out = Ret (Some res, e)" for res e
  proof -
    from verifyArtifact_tests_reached [OF run] ok obtain v key v' i where reach: "?reach v key v' i"
      by blast
    have every: "\<forall>m<length ?ts. test_continues ctx artifact i key m"
    proof (rule ccontr)
      assume "\<not> (\<forall>m<length ?ts. test_continues ctx artifact i key m)"
      from first_stop [OF this] obtain j where j: "j < length ?ts"
        and before: "\<forall>m<j. test_continues ctx artifact i key m"
        and stop: "\<not> test_continues ctx artifact i key j"
        by blast
      show False
      proof (cases "(?ts ! j) ctx i (test_params key)")
        case (Some err)
        from err [OF reach j before Some] ok show False by simp
      next
        case None
        with stop have "is_canceled (ctx (AfterTest j))"
          by (simp add: test_continues_def)
        from cancel [OF reach j before None this] ok show False by simp
      qed
    qed
    from all [OF reach every] reach every show ?thesis
      by blast
  qed
  from segment err cancel all success show ?thesis
    by blast
qed

theorem tests_sequential_witness:
  "reaches_tests rt0 ctx0 fedora_failing unverified opts0 client0
     fedora_created ''priv'' fedora_created \<lparr>vmi_name = ''fedora-ab12x''\<rparr> \<and>
   length (Tests fedora_failing) = 3 \<and>
   test_continues ctx0 fedora_failing \<lparr>vmi_name = ''fedora-ab12x''\<rparr> ''priv'' 0 \<and>
   (Tests fedora_failing ! 1) ctx0 \<lparr>vmi_name = ''fedora-ab12x''\<rparr> (test_params ''priv'') =
     Some (Err ''guest check failed'') \<and>
   fst (verifyArtifact rt0 ctx0 fedora_failing unverified opts0 client0) =
     Ret (None, Some (Err ''guest check failed'')) \<and>
   filter is_test (snd (verifyArtifact rt0 ctx0 fedora_failing unverified opts0 client0)) =
     [EvTest 0, EvTest 1]"
proof -
  let ?run = "verifyArtifact rt0 ctx0 fedora_failing unverified opts0 client0"
  let ?i = "\<lparr>vmi_name = ''fedora-ab12x''\<rparr>"
  have run: "?run = (fst ?run, snd ?run)" by simp
  have reach: "reaches_tests rt0 ctx0 fedora_failing unverified opts0 client0
     fedora_created ''priv'' fedora_created ?i"
    by code_simp
  have len: "length (Tests fedora_failing) = 3"
    by (simp add: fedora_failing_def)
  have first: "test_continues ctx0 fedora_failing ?i ''priv'' 0"
    by (simp add: test_continues_def fedora_failing_def pass_test_def ctx0_def is_canceled_def)
  have second: "(Tests fedora_failing ! 1) ctx0 ?i (test_params ''priv'') =
     Some (Err ''guest check failed'')"
    by (simp add: fedora_failing_def fail_test_def)
  have hyp: "1 < length (Tests fedora_failing) \<and>
             (\<forall>m<1. test_continues ctx0 fedora_failing ?i ''priv'' m) \<and>
             (Tests fedora_failing ! 1) ctx0 ?i (test_params ''priv'') =
               Some (Err ''guest check failed'')"
    using len first second by simp
  from tests_sequential [OF run, THEN conjunct2, THEN conjunct1, rule_format, OF reach,
      THEN conjunct1, rule_format, OF hyp]
  have "fst ?run = Ret (None, Some (Err ''guest check failed'')) \<and>
        filter is_test (snd ?run) = map EvTest [0..<Suc 1]" .
  then have "fst ?run = Ret (None, Some (Err ''guest check failed'')) \<and>
        filter is_test (snd ?run) = [EvTest 0, EvTest 1]"
    by (simp add: upt_rec)
  with reach len first second show ?thesis
    by blast
qed

subsection \<open>The image that is booted and tested\<close>

lemma runTests_no_get_events:
  "runTests ctx ts i v k = (r, tr) \<Longrightarrow> EvGetVM n \<notin> set tr \<and> EvGetVMI n \<notin> set tr"
proof (induction ts arbitrary: i r tr)
  case Nil
  then show ?case by simp
next
  case (Cons t ts)
  then show ?case
    by (auto split: option.splits if_splits prod.splits)
qed

lemma verifyCreated_names:
  assumes "verifyCreated rt ctx a res opts cl vmc v' key = (r, tr)"
    and "EvGetVM n \<in> set tr \<or> EvGetVMI n \<in> set tr"
  shows "n = vm_name v'"
proof -
  obtain werr wtr where w: "waitVMReady rt ctx (vm_name v') vmc (Timeout opts) = (werr, wtr)"
    by (cases "waitVMReady rt ctx (vm_name v') vmc (Timeout opts)")
  from waitVMReady_trace [OF w] obtain k where wtr: "wtr = replicate k (EvGetVM (vm_name v'))"
    by blast
  show ?thesis
    using assms w unfolding verifyCreated_def wtr
    by (auto split: option.splits if_splits prod.splits sum.splits
        dest: runTests_no_get_events)
qed

lemma verifyArtifact_names:
  assumes run: "verifyArtifact rt ctx a res opts cl = (out, tr)"
    and ev: "EvGetVM n \<in> set tr \<or> EvGetVMI n \<in> set tr"
  shows "\<exists>v v'. filter is_create tr = [EvCreate v] \<and>
           Create (VirtualMachine cl (Namespace opts)) v = Inr v' \<and> n = vm_name v'"
proof -
  let ?vmc = "VirtualMachine cl (Namespace opts)"
  let ?img = "pathJoin rt (Registry opts) (hd (Tags res))"
  show ?thesis
  proof (cases "\<exists>v key v'. Tags res \<noteq> [] \<and> fst (createVM rt a ?img) = Ret (Inr (v, key)) \<and>
                  \<not> is_canceled (ctx BeforeCreate) \<and> Create ?vmc v = Inr v'")
    case False
    then have "EvGetVM n \<notin> set tr \<and> EvGetVMI n \<notin> set tr"
      using run unfolding verifyArtifact_def Let_def
      by (auto simp: index_first split: if_splits prod.splits sum.splits go.splits
          dest!: createVM_trace)
    with ev show ?thesis by blast
  next
    case True
    then obtain v key v' where tags: "Tags res \<noteq> []"
      and c: "fst (createVM rt a ?img) = Ret (Inr (v, key))"
      and g1: "\<not> is_canceled (ctx BeforeCreate)" and cr: "Create ?vmc v = Inr v'"
      by blast
    obtain ctr where c': "createVM rt a ?img = (Ret (Inr (v, key)), ctr)"
      using c by (cases "createVM rt a ?img") simp
    from createVM_trace [OF c'] have ctr: "ctr = [EvGenerateKey]" .
    obtain r tr' where vc: "verifyCreated rt ctx a res opts cl ?vmc v' key = (r, tr')"
      by (cases "verifyCreated rt ctx a res opts cl ?vmc v' key")
    from run tags c' g1 cr vc
    have tr: "tr = [EvGenerateKey, EvCheck BeforeCreate, EvLog LvInfo ''Creating VM'' None,
                    EvCreate v] @ tr' @ deferredDelete ?vmc v'"
      unfolding verifyArtifact_def Let_def
      by (auto simp: index_first ctr)
    from verifyCreated_no_cluster_calls [OF vc] have "filter is_create tr = [EvCreate v]"
      by (simp add: tr)
    moreover from ev have "EvGetVM n \<in> set tr' \<or> EvGetVMI n \<in> set tr'"
      by (auto simp: tr deferredDelete_def split: option.splits)
    from verifyCreated_names [OF vc this] have "n = vm_name v'" .
    ultimately show ?thesis
      using cr by blast
  qed
qed

text \<open>
  Claim C6. With a non-empty tag set, reading \<open>Tags[0]\<close> is in bounds and does not panic.
  At most one VM is created, and its image reference is the registry joined with the first
  tag. Every poll and every instance fetch of the attempt is for the VM the cluster
  returned for that one create, and tests are invoked only once that VM has been created,
  waited for and its instance fetched. A successful attempt has created that VM, its wait
  for it has succeeded, it has fetched its instance and invoked every declared test on it,
  each of which passed; and it returns the whole original tag set with \<open>Verified = true\<close>
  and no error.
\<close>

theorem verifyArtifact_first_tag:
  assumes tags: "Tags result \<noteq> []"
    and run: "verifyArtifact rt ctx artifact result options client = (out, tr)"
  shows "index (Tags result) 0 = Some (hd (Tags result)) \<and>
         out \<noteq> Panic ''index out of range'' \<and>
         length (filter is_create tr) \<le> 1 \<and>
         (\<forall>v. EvCreate v \<in> set tr \<longrightarrow>
            (\<exists>userData. v = VM artifact (randName rt (Name artifact))
                             (pathJoin rt (Registry options) (hd (Tags result))) userData)) \<and>
         (\<forall>r e. out = Ret (Some r, e) \<longrightarrow> r = \<lparr>Tags = Tags result, Verified = True\<rparr> \<and> e = None) \<and>
         (\<forall>n. EvGetVM n \<in> set tr \<or> EvGetVMI n \<in> set tr \<longrightarrow>
            (\<exists>v v'. filter is_create tr = [EvCreate v] \<and>
               Create (VirtualMachine client (Namespace options)) v = Inr v' \<and> n = vm_name v')) \<and>
         (filter is_test tr \<noteq> [] \<longrightarrow>
            (\<exists>v key v' i. reaches_tests rt ctx artifact result options client v key v' i \<and>
               filter is_create tr = [EvCreate v])) \<and>
         (\<forall>r e. out = Ret (Some r, e) \<longrightarrow>
            (\<exists>v key v' i.
               reaches_tests rt ctx artifact result options client v key v' i \<and>
               filter is_create tr = [EvCreate v] \<and>
               filter is_get tr =
                 snd (waitVMReady rt ctx (vm_name v')
                        (VirtualMachine client (Namespace options)) (Timeout options)) \<and>
               (\<forall>n. EvGetVMI n \<in> set tr \<longleftrightarrow> n = vm_name v') \<and>
               filter is_test tr = map EvTest [0..<length (Tests artifact)] \<and>
               (\<forall>m<length (Tests artifact). test_continues ctx artifact i key m)))"
proof -
  let ?reach = "reaches_tests rt ctx artifact result options client"
  have first: "index (Tags result) 0 = Some (hd (Tags result))"
    using tags by (rule index_first)
  have slice: "marshallPublicKey rt' k \<noteq> Panic ''index out of range''" for rt' k
    by (simp add: marshallPublicKey_def Let_def split: sum.splits option.splits)
  have nopanic: "out \<noteq> Panic ''index out of range''"
    using run tags first slice
    unfolding verifyArtifact_def Let_def
    by (auto simp: createVM_def Let_def split: if_splits prod.splits sum.splits go.splits)
  have creates: "length (filter is_create tr) \<le> 1"
    using run tags first
    unfolding verifyArtifact_def Let_def
    by (clarsimp split: if_splits prod.splits sum.splits go.splits
        dest!: createVM_trace verifyCreated_no_cluster_calls)
  have image: "\<exists>userData. v = VM artifact (randName rt (Name artifact))
                  (pathJoin rt (Registry options) (hd (Tags result))) userData"
    if "EvCreate v \<in> set tr" for v
    using run tags first that
    unfolding verifyArtifact_def Let_def
    by (clarsimp simp: filter_empty_conv split: if_splits prod.splits sum.splits go.splits
        dest!: createVM_facts verifyCreated_no_cluster_calls) auto
  have result: "r = \<lparr>Tags = Tags result, Verified = True\<rparr> \<and> e = None"
    if "out = Ret (Some r, e)" for r e
    using run tags first that
    unfolding verifyArtifact_def Let_def
    by (clarsimp split: if_splits prod.splits sum.splits go.splits
        dest!: verifyCreated_success)
  have names: "\<exists>v v'. filter is_create tr = [EvCreate v] \<and>
               Create (VirtualMachine client (Namespace options)) v = Inr v' \<and> n = vm_name v'"
    if "EvGetVM n \<in> set tr \<or> EvGetVMI n \<in> set tr" for n
    using run that by (rule verifyArtifact_names)
  have tested: "\<exists>v key v' i. ?reach v key v' i \<and> filter is_create tr = [EvCreate v]"
    if "filter is_test tr \<noteq> []"
  proof -
    from verifyArtifact_tests_reached [OF run] that obtain v key v' i where reach: "?reach v key v' i"
      by blast
    with verifyArtifact_at_tests_events(3) [OF reach run] show ?thesis
      by blast
  qed
  have booted: "\<exists>v key v' i.
               ?reach v key v' i \<and>
               filter is_create tr = [EvCreate v] \<and>
               filter is_get tr =
                 snd (waitVMReady rt ctx (vm_name v')
                        (VirtualMachine client (Namespace options)) (Timeout options)) \<and>
               (\<forall>n. EvGetVMI n \<in> set tr \<longleftrightarrow> n = vm_name v') \<and>
               filter is_test tr = map EvTest [0..<length (Tests artifact)] \<and>
               (\<forall>m<length (Tests artifact). test_continues ctx artifact i key m)"
    if ok: "out = Ret (Some r, e)" for r e
  proof -
    from verifyArtifact_tests_reached [OF run] ok obtain v key v' i where reach: "?reach v key v' i"
      by blast
    note ev = verifyArtifact_at_tests_events [OF reach run]
    have every: "\<forall>m<length (Tests artifact). test_continues ctx artifact i key m"
    proof (rule ccontr)
      assume "\<not> (\<forall>m<length (Tests artifact). test_continues ctx artifact i key m)"
      from first_stop [OF this] obtain j where j: "j < length (Tests artifact)"
        and before: "\<forall>m<j. (Tests artifact ! m) ctx i (test_params key) = None \<and>
                       \<not> is_canceled (ctx (AfterTest (0 + m)))"
        and stop: "\<not> test_continues ctx artifact i key j"
        by (auto simp: test_continues_def)
      show False
      proof (cases "(Tests artifact ! j) ctx i (test_params key)")
        case (Some err)
        from runTests_stops_with_error [OF j before Some] ev(1) ok show False by simp
      next
        case None
        with stop have "is_canceled (ctx (AfterTest (0 + j)))"
          by (simp add: test_continues_def)
        from runTests_stops_cancelled [OF j before None this] ev(1) ok show False by simp
      qed
    qed
    then have "\<forall>m<length (Tests artifact). (Tests artifact ! m) ctx i (test_params key) = None \<and>
                 \<not> is_canceled (ctx (AfterTest (0 + m)))"
      by (simp add: test_continues_def)
    from runTests_runs_all [OF this] ev(2)
    have "filter is_test tr = map EvTest [0..<length (Tests artifact)]"
      by simp
    with reach ev(3,4,5) every show ?thesis
      by blast
  qed
  from first nopanic creates image result names tested booted show ?thesis
    by blast
qed

theorem verifyArtifact_first_tag_witness:
  "Tags \<lparr>Tags = [''fedora:39'', ''fedora:latest''], Verified = False\<rparr> \<noteq> [] \<and>
   index [''fedora:39'', ''fedora:latest''] 0 = Some ''fedora:39'' \<and>
   filter is_create
     (snd (verifyArtifact rt0 ctx0 fedora
            \<lparr>Tags = [''fedora:39'', ''fedora:latest''], Verified = False\<rparr> opts0 client0)) =
     [EvCreate fedora_created] \<and>
   vm_image fedora_created = ''quay.io/containerdisks/fedora:39'' \<and>
   filter is_get
     (snd (verifyArtifact rt0 ctx0 fedora
            \<lparr>Tags = [''fedora:39'', ''fedora:latest''], Verified = False\<rparr> opts0 client0)) =
     [EvGetVM ''fedora-ab12x'', EvGetVM ''fedora-ab12x'', EvGetVM ''fedora-ab12x''] \<and>
   EvGetVMI ''fedora-ab12x'' \<in>
     set (snd (verifyArtifact rt0 ctx0 fedora
            \<lparr>Tags = [''fedora:39'', ''fedora:latest''], Verified = False\<rparr> opts0 client0)) \<and>
   filter is_test
     (snd (verifyArtifact rt0 ctx0 fedora
            \<lparr>Tags = [''fedora:39'', ''fedora:latest''], Verified = False\<rparr> opts0 client0)) =
     [EvTest 0, EvTest 1] \<and>
   fst (verifyArtifact rt0 ctx0 fedora
         \<lparr>Tags = [''fedora:39'', ''fedora:latest''], Verified = False\<rparr> opts0 client0) =
     Ret (Some \<lparr>Tags = [''fedora:39'', ''fedora:latest''], Verified = True\<rparr>, None)"
proof -
  let ?res = "\<lparr>Tags = [''fedora:39'', ''fedora:latest''], Verified = False\<rparr>"
  let ?run = "verifyArtifact rt0 ctx0 fedora ?res opts0 client0"
  have tags: "Tags ?res \<noteq> []" by simp
  have run: "?run = (fst ?run, snd ?run)" by simp
  have made: "filter is_create (snd ?run) = [EvCreate fedora_created]" by code_simp
  have img: "vm_image fedora_created = ''quay.io/containerdisks/fedora:39''"
    by (simp add: fedora_created_def fedora_vm_def)
  have gets: "filter is_get (snd ?run) =
      [EvGetVM ''fedora-ab12x'', EvGetVM ''fedora-ab12x'', EvGetVM ''fedora-ab12x'']"
    by code_simp
  have fetched: "EvGetVMI ''fedora-ab12x'' \<in> set (snd ?run)" by code_simp
  have len: "length (Tests fedora) = 2"
    by (simp add: fedora_def)
  have "fst ?run = Ret (Some \<lparr>Tags = Tags ?res, Verified = True\<rparr>, None)" by code_simp
  then obtain r e where out: "fst ?run = Ret (Some r, e)" by blast
  note inst = verifyArtifact_first_tag [OF tags run]
  from inst out have res: "r = \<lparr>Tags = Tags ?res, Verified = True\<rparr> \<and> e = None"
    by blast
  from inst out have "filter is_test (snd ?run) = map EvTest [0..<length (Tests fedora)]"
    by blast
  then have tests: "filter is_test (snd ?run) = [EvTest 0, EvTest 1]"
    by (simp add: len upt_rec)
  from inst have "index (Tags ?res) 0 = Some (hd (Tags ?res))" by blast
  then have idx: "index [''fedora:39'', ''fedora:latest''] 0 = Some ''fedora:39''" by simp
  show ?thesis
    using tags idx made img gets fetched tests out res by simp
qed

subsection \<open>A run without panics\<close>

lemma worker_exact:
  assumes "\<not> attempt_panics sys options client results a"
  shows "(sent sys options client results a = [] \<or> length (buf c) < cap c \<longrightarrow>
           (\<exists>e tr. worker sys options client results a c =
              (Ret e, c\<lparr>buf := buf c @ sent sys options client results a\<rparr>, tr))) \<and>
         (sent sys options client results a \<noteq> [] \<and> cap c \<le> length (buf c) \<longrightarrow>
           fst (worker sys options client results a c) = Blocked)"
proof (cases "results (Describe a)")
  case None
  then show ?thesis by (simp add: worker_def sent_def)
next
  case (Some r)
  show ?thesis
  proof (cases "Verified r")
    case True
    with Some show ?thesis by (simp add: worker_def sent_def)
  next
    case False
    let ?run = "verifyArtifact (attempt_runtime sys a) (attempt_ctx sys a) a r options client"
    obtain out tr where run: "?run = (out, tr)" by (cases ?run)
    from assms Some False run have np: "\<forall>p. out \<noteq> Panic p"
      by (auto simp: attempt_panics_def)
    from verifyArtifact_not_blocked [of "attempt_runtime sys a" "attempt_ctx sys a" a r options client]
      run have nb: "out \<noteq> Blocked" by simp
    from np nb obtain res e where out: "out = Ret (res, e)"
      by (cases out) auto
    show ?thesis
      using Some False run out
      by (cases res) (simp_all add: worker_def sent_def send_def)
  qed
qed

lemma worker_buf_any:
  "worker sys options client results a c = (out, c', tr) \<Longrightarrow>
   buf c' = buf c \<or> buf c' = buf c @ sent sys options client results a"
  by (auto simp: worker_def sent_def send_def
      split: prod.splits go.splits option.splits if_splits)

lemma spawnWorkers_exact:
  assumes "\<forall>a \<in> set sched. \<not> attempt_panics sys options client results a"
    and "length (buf c) \<le> cap c"
  shows "(length (buf c) + length (concat (map (sent sys options client results) sched)) \<le> cap c \<longrightarrow>
           (\<exists>e tr. spawnWorkers (worker sys options client results) sched c =
              (Ret e, c\<lparr>buf := buf c @ concat (map (sent sys options client results) sched)\<rparr>, tr))) \<and>
         (cap c < length (buf c) + length (concat (map (sent sys options client results) sched)) \<longrightarrow>
           fst (spawnWorkers (worker sys options client results) sched c) = Blocked)"
  using assms
proof (induction sched arbitrary: c)
  case Nil
  then show ?case by simp
next
  case (Cons a sched)
  let ?s = "sent sys options client results a"
  let ?rest = "concat (map (sent sys options client results) sched)"
  let ?w = "worker sys options client results"
  from Cons.prems have np: "\<not> attempt_panics sys options client results a"
    and nps: "\<forall>a \<in> set sched. \<not> attempt_panics sys options client results a"
    and inv: "length (buf c) \<le> cap c"
    by simp_all
  note w = worker_exact [OF np, of c]
  note one = length_sent [of sys options client results a]
  show ?case
  proof (cases "?s \<noteq> [] \<and> cap c \<le> length (buf c)")
    case True
    with w have "fst (?w a c) = Blocked" by blast
    then have "fst (spawnWorkers ?w (a # sched) c) = Blocked"
      by (cases "?w a c") (auto split: prod.splits go.splits)
    with True show ?thesis by (cases ?s) auto
  next
    case False
    with w obtain e tr where wa: "?w a c = (Ret e, c\<lparr>buf := buf c @ ?s\<rparr>, tr)"
      by (metis not_le)
    let ?c1 = "c\<lparr>buf := buf c @ ?s\<rparr>"
    have inv1: "length (buf ?c1) \<le> cap ?c1"
      using False inv one by (cases ?s) auto
    note IH = Cons.IH [OF nps inv1]
    show ?thesis
    proof (intro conjI impI)
      assume "length (buf c) + length (concat (map (sent sys options client results) (a # sched))) \<le> cap c"
      then have "length (buf ?c1) + length ?rest \<le> cap ?c1" by simp
      with IH obtain e' tr' where
        "spawnWorkers ?w sched ?c1 = (Ret e', ?c1\<lparr>buf := buf ?c1 @ ?rest\<rparr>, tr')"
        by blast
      with wa show "\<exists>e tr. spawnWorkers ?w (a # sched) c =
          (Ret e, c\<lparr>buf := buf c @ concat (map (sent sys options client results) (a # sched))\<rparr>, tr)"
        by simp
    next
      assume "cap c < length (buf c) + length (concat (map (sent sys options client results) (a # sched)))"
      then have "cap ?c1 < length (buf ?c1) + length ?rest" by simp
      with IH have "fst (spawnWorkers ?w sched ?c1) = Blocked" by blast
      with wa show "fst (spawnWorkers ?w (a # sched) c) = Blocked"
        by (cases "spawnWorkers ?w sched ?c1") (auto split: go.splits)
    qed
  qed
qed

lemma Run_exact:
  assumes read: "readResultsFile sys (ResultsFile options) = Inr results"
    and cl: "GetKubevirtClient sys = Inr client"
    and np: "\<forall>a \<in> set sched. \<not> attempt_panics sys options client results a"
  shows "(length (concat (map (sent sys options client results) sched))
            \<le> length (CatalogRegistry sys) \<longrightarrow>
          exit (Run sys options sched) \<noteq> ExitDeadlock \<and>
          written (Run sys options sched) =
            (case writeResultsFile sys (ResultsFile options)
                    (drain results (concat (map (sent sys options client results) sched))) of
               None \<Rightarrow> Some (drain results (concat (map (sent sys options client results) sched)))
             | Some werr \<Rightarrow> None)) \<and>
         (length (CatalogRegistry sys)
            < length (concat (map (sent sys options client results) sched)) \<longrightarrow>
          exit (Run sys options sched) = ExitDeadlock \<and> written (Run sys options sched) = None)"
proof -
  let ?c0 = "make_chan (length (CatalogRegistry sys))"
  let ?rs = "concat (map (sent sys options client results) sched)"
  have inv: "length (buf ?c0) \<le> cap ?c0"
    by (simp add: make_chan_def)
  note sp = spawnWorkers_exact [OF np inv]
  show ?thesis
  proof (intro conjI impI)
    assume fits: "length ?rs \<le> length (CatalogRegistry sys)"
    with sp obtain e tr where
      s: "spawnWorkers (worker sys options client results) sched ?c0 = (Ret e, ?c0\<lparr>buf := buf ?c0 @ ?rs\<rparr>, tr)"
      by (auto simp: make_chan_def)
    show "exit (Run sys options sched) \<noteq> ExitDeadlock"
      using read cl s
      by (simp add: Run_def range_chan_def close_chan_def split: option.splits)
    show "written (Run sys options sched) =
            (case writeResultsFile sys (ResultsFile options) (drain results ?rs) of
               None \<Rightarrow> Some (drain results ?rs)
             | Some werr \<Rightarrow> None)"
      using read cl s
      by (simp add: Run_def range_chan_def close_chan_def make_chan_def split: option.splits)
  next
    assume "length (CatalogRegistry sys) < length ?rs"
    with sp have "fst (spawnWorkers (worker sys options client results) sched ?c0) = Blocked"
      by (simp add: make_chan_def)
    then obtain c tr where
      s: "spawnWorkers (worker sys options client results) sched ?c0 = (Blocked, c, tr)"
      by (cases "spawnWorkers (worker sys options client results) sched ?c0") auto
    show "exit (Run sys options sched) = ExitDeadlock"
      using read cl s by (simp add: Run_def)
    show "written (Run sys options sched) = None"
      using read cl s by (simp add: Run_def)
  qed
qed

lemma length_sent_all:
  "length (concat (map (sent sys options client results) sched)) \<le> length sched"
proof (induction sched)
  case Nil
  then show ?case by simp
next
  case (Cons a sched)
  with length_sent [of sys options client results a] show ?case by simp
qed

lemma mset_sent_all:
  assumes "mset sched' = mset sched"
  shows "mset (concat (map (sent sys options client results) sched')) =
         mset (concat (map (sent sys options client results) sched))"
proof -
  have "mset (concat (map f xs)) = sum_mset (image_mset (\<lambda>x. mset (f x)) (mset xs))"
    for f :: "Artifact \<Rightarrow> workerResult list" and xs
    by (induction xs) simp_all
  with assms show ?thesis by simp
qed

subsection \<open>Merging the results\<close>

text \<open>
  Claim C5. In a run that has read its ledger, has its client, and in which no attempt
  panics: the run blocks on a send exactly when more results are sent than the catalog has
  entries, which is the capacity the run gives its results channel; so a run in which the
  pool calls back at most once per catalog entry never blocks, and it hands the ledger file
  the prior ledger merged with the received results and, when that write succeeds, has
  written exactly this ledger; for a catalog with distinct keys the written ledger is the
  same for every order in which the pool completes the artifacts. A callback adds at most
  one result to the channel, keyed by its artifact. The merge loop sets the entry of every
  received key to the received value and leaves every other entry as it was, and for
  results with pairwise distinct keys the merged ledger does not depend on their order.
\<close>

theorem results_merge:
  "(readResultsFile sys (ResultsFile options) = Inr results \<and>
    GetKubevirtClient sys = Inr client \<and>
    (\<forall>a \<in> set sched. \<not> attempt_panics sys options client results a) \<longrightarrow>
      (exit (Run sys options sched) = ExitDeadlock \<longleftrightarrow>
         length (CatalogRegistry sys)
           < length (concat (map (sent sys options client results) sched))) \<and>
      (length sched \<le> length (CatalogRegistry sys) \<longrightarrow>
         exit (Run sys options sched) \<noteq> ExitDeadlock \<and>
         (writeResultsFile sys (ResultsFile options)
            (drain results (concat (map (sent sys options client results) sched))) = None \<longrightarrow>
          written (Run sys options sched) =
            Some (drain results (concat (map (sent sys options client results) sched))))) \<and>
      (\<forall>sched'. mset sched' = mset sched \<and> distinct (map Describe sched) \<and>
          length sched \<le> length (CatalogRegistry sys) \<longrightarrow>
          written (Run sys options sched') = written (Run sys options sched))) \<and>
   (\<forall>out c' tr. worker sys options client results a c = (out, c', tr) \<longrightarrow>
      buf c' = buf c \<or> buf c' = buf c @ sent sys options client results a) \<and>
   (\<forall>e c' tr. worker sys options client results a c = (Ret e, c', tr) \<longrightarrow>
      buf c' = buf c @ sent sys options client results a) \<and>
   length (sent sys options client results a) \<le> 1 \<and>
   (\<forall>r \<in> set (sent sys options client results a). Key r = Describe a) \<and>
   (\<forall>k. k \<notin> Key ` set rs \<longrightarrow> drain l rs k = l k) \<and>
   (distinct (map Key rs) \<longrightarrow> (\<forall>r \<in> set rs. drain l rs (Key r) = Some (Value r))) \<and>
   (distinct (map Key rs) \<and> mset rs = mset rs' \<longrightarrow> drain l rs = drain l rs')"
proof -
  let ?sent = "sent sys options client results"
  let ?rs = "\<lambda>sched. concat (map ?sent sched)"
  let ?file = "ResultsFile options"
  have runs:
    "(exit (Run sys options sched) = ExitDeadlock \<longleftrightarrow>
         length (CatalogRegistry sys) < length (?rs sched)) \<and>
      (length sched \<le> length (CatalogRegistry sys) \<longrightarrow>
         exit (Run sys options sched) \<noteq> ExitDeadlock \<and>
         (writeResultsFile sys ?file (drain results (?rs sched)) = None \<longrightarrow>
          written (Run sys options sched) = Some (drain results (?rs sched)))) \<and>
      (\<forall>sched'. mset sched' = mset sched \<and> distinct (map Describe sched) \<and>
          length sched \<le> length (CatalogRegistry sys) \<longrightarrow>
          written (Run sys options sched') = written (Run sys options sched))"
    if read: "readResultsFile sys ?file = Inr results"
      and cl: "GetKubevirtClient sys = Inr client"
      and np: "\<forall>a \<in> set sched. \<not> attempt_panics sys options client results a"
  proof -
    note ex = Run_exact [OF read cl np]
    have blocks: "exit (Run sys options sched) = ExitDeadlock \<longleftrightarrow>
         length (CatalogRegistry sys) < length (?rs sched)"
      using ex by (cases "length (CatalogRegistry sys) < length (?rs sched)") auto
    have merged: "exit (Run sys options sched) \<noteq> ExitDeadlock \<and>
         (writeResultsFile sys ?file (drain results (?rs sched)) = None \<longrightarrow>
          written (Run sys options sched) = Some (drain results (?rs sched)))"
      if "length sched \<le> length (CatalogRegistry sys)"
    proof -
      from that length_sent_all [of sys options client results sched]
      have "length (?rs sched) \<le> length (CatalogRegistry sys)" by simp
      with ex show ?thesis by simp
    qed
    have order: "written (Run sys options sched') = written (Run sys options sched)"
      if perm: "mset sched' = mset sched" and keys: "distinct (map Describe sched)"
        and len: "length sched \<le> length (CatalogRegistry sys)"
      for sched'
    proof -
      from perm have "set sched' = set sched" by (rule mset_eq_setD)
      with np have np': "\<forall>a \<in> set sched'. \<not> attempt_panics sys options client results a"
        by simp
      note ex' = Run_exact [OF read cl np']
      from mset_sent_all [OF perm] have m: "mset (?rs sched') = mset (?rs sched)" .
      then have "length (?rs sched') = length (?rs sched)"
        by (metis size_mset)
      with len length_sent_all [of sys options client results sched]
      have fits: "length (?rs sched) \<le> length (CatalogRegistry sys)"
        "length (?rs sched') \<le> length (CatalogRegistry sys)"
        by simp_all
      from drain_order_irrelevant [OF sent_distinct [OF keys] m [symmetric]]
      have same: "drain results (?rs sched') = drain results (?rs sched)"
        by (rule sym)
      from ex fits(1) have a: "written (Run sys options sched) =
            (case writeResultsFile sys ?file (drain results (?rs sched)) of
               None \<Rightarrow> Some (drain results (?rs sched))
             | Some werr \<Rightarrow> None)"
        by blast
      from ex' fits(2) have b: "written (Run sys options sched') =
            (case writeResultsFile sys ?file (drain results (?rs sched')) of
               None \<Rightarrow> Some (drain results (?rs sched'))
             | Some werr \<Rightarrow> None)"
        by blast
      show ?thesis
        unfolding a b same by (rule refl)
    qed
    from blocks merged order show ?thesis by blast
  qed
  have any: "buf c' = buf c \<or> buf c' = buf c @ ?sent a"
    if "worker sys options client results a c = (out, c', tr)" for out c' tr
    using that by (rule worker_buf_any)
  have ret: "buf c' = buf c @ ?sent a"
    if "worker sys options client results a c = (Ret e, c', tr)" for e c' tr
    using worker_sends [OF that] by simp
  show ?thesis
    using runs any ret length_sent [of sys options client results a]
      sent_key [of _ sys options client results a]
      drain_untouched [of _ rs l] drain_received [of rs _ l]
      drain_order_irrelevant [of rs rs' l]
    by (intro conjI) blast+
qed

theorem results_merge_witness:
  "readResultsFile (sys0 ledger0) (ResultsFile opts0) = Inr ledger0 \<and>
   GetKubevirtClient (sys0 ledger0) = Inr client0 \<and>
   \<not> attempt_panics (sys0 ledger0) opts0 client0 ledger0 fedora \<and>
   length [fedora] \<le> length (CatalogRegistry (sys0 ledger0)) \<and>
   sent (sys0 ledger0) opts0 client0 ledger0 fedora = [result_fedora] \<and>
   exit (Run (sys0 ledger0) opts0 [fedora]) \<noteq> ExitDeadlock \<and>
   written (Run (sys0 ledger0) opts0 [fedora]) = Some (drain ledger0 [result_fedora]) \<and>
   written_entry (Run (sys0 ledger0) opts0 [fedora]) ''fedora'' = Some (Some (Value result_fedora)) \<and>
   distinct (map Key [result_fedora, result_centos]) \<and>
   mset [result_fedora, result_centos] = mset [result_centos, result_fedora] \<and>
   drain ledger0 [result_fedora, result_centos] = drain ledger0 [result_centos, result_fedora] \<and>
   drain ledger0 [result_fedora, result_centos] ''centos'' = Some (Value result_centos) \<and>
   drain ledger0 [result_fedora, result_centos] ''debian'' = ledger0 ''debian''"
proof -
  let ?sys = "sys0 ledger0"
  let ?rs = "[result_fedora, result_centos]"
  let ?rs' = "[result_centos, result_fedora]"
  note inst = results_merge [where sys="?sys" and sched="[fedora]" and options=opts0
      and client=client0 and results=ledger0 and a=fedora and c="make_chan 1"
      and rs="?rs" and rs'="?rs'" and l=ledger0]
  have rd: "readResultsFile ?sys (ResultsFile opts0) = Inr ledger0"
    and cl: "GetKubevirtClient ?sys = Inr client0"
    by (simp_all add: sys0_def)
  have np: "\<not> attempt_panics ?sys opts0 client0 ledger0 fedora"
    by code_simp
  have len: "length [fedora] \<le> length (CatalogRegistry ?sys)"
    by (simp add: sys0_def)
  have s: "sent ?sys opts0 client0 ledger0 fedora = [result_fedora]"
    by code_simp
  have wr: "writeResultsFile ?sys (ResultsFile opts0)
              (drain ledger0 (concat (map (sent ?sys opts0 client0 ledger0) [fedora]))) = None"
    by (simp add: sys0_def)
  have hyp: "readResultsFile ?sys (ResultsFile opts0) = Inr ledger0 \<and>
             GetKubevirtClient ?sys = Inr client0 \<and>
             (\<forall>a \<in> set [fedora]. \<not> attempt_panics ?sys opts0 client0 ledger0 a)"
    using rd cl np by simp
  note runs = inst [THEN conjunct1, rule_format, OF hyp]
  from runs len have 1: "exit (Run ?sys opts0 [fedora]) \<noteq> ExitDeadlock"
    by blast
  from runs len wr have "written (Run ?sys opts0 [fedora]) =
      Some (drain ledger0 (concat (map (sent ?sys opts0 client0 ledger0) [fedora])))"
    by blast
  then have 2: "written (Run ?sys opts0 [fedora]) = Some (drain ledger0 [result_fedora])"
    by (simp add: s)
  then have 3: "written_entry (Run ?sys opts0 [fedora]) ''fedora'' = Some (Some (Value result_fedora))"
    by (simp add: written_entry_def result_fedora_def)
  have keys: "distinct (map Key ?rs)"
    by (simp add: result_fedora_def result_centos_def)
  have perm: "mset ?rs = mset ?rs'"
    by (simp add: add.commute)
  have centos: "result_centos \<in> set ?rs" and ck: "Key result_centos = ''centos''"
    by (simp_all add: result_centos_def)
  have other: "''debian'' \<notin> Key ` set ?rs"
    by (simp add: result_fedora_def result_centos_def)
  from inst keys perm have 4: "drain ledger0 ?rs = drain ledger0 ?rs'"
    by blast
  from inst keys centos have "drain ledger0 ?rs (Key result_centos) = Some (Value result_centos)"
    by blast
  then have 5: "drain ledger0 ?rs ''centos'' = Some (Value result_centos)"
    by (simp only: ck)
  from inst other have 6: "drain ledger0 ?rs ''debian'' = ledger0 ''debian''"
    by blast
  from rd cl np len s 1 2 3 keys perm 4 5 6 show ?thesis
    by blast
qed

subsection \<open>The duration of the readiness wait\<close>

lemma wrap64_id: "- (2 ^ 63) \<le> x \<Longrightarrow> x < 2 ^ 63 \<Longrightarrow> wrap64 x = x"
  by (simp add: wrap64_def)

lemma duration_in_range:
  assumes "- 9223372036 \<le> timeout" and "timeout \<le> 9223372036"
  shows "wrap64 (wrap64 timeout * Second) = timeout * 1000000000"
proof -
  have "wrap64 timeout = timeout"
    using assms by (intro wrap64_id) simp_all
  moreover have "wrap64 (timeout * Second) = timeout * Second"
    using assms by (intro wrap64_id) (simp_all add: Second_def)
  ultimately show ?thesis by (simp add: Second_def)
qed

text \<open>
  Claim C7. The wait hands the poll helper an interval of one second and, as its timeout,
  the product of the caller's seconds and \<open>time.Second\<close>, computed in 64 bits without a check.
  For a timeout of 9223372037 seconds the product wraps: the helper is called with a
  timeout of -9223372036709551616 nanoseconds, a duration that has elapsed before the first
  poll, and not with the 9223372037 seconds the caller supplied.
\<close>

theorem waitVMReady_timeout_wraps:
  "wrap64 (wrap64 9223372037 * Second) = - 9223372036709551616 \<and>
   waitVMReady rt ctx name client 9223372037 =
     (case PollImmediateWithContext rt ctx 1000000000 (- 9223372036709551616)
             (\<lambda>k. case Get client k name of
                     Inl err \<Rightarrow> (False, Some err)
                   | Inr v \<Rightarrow> (vm_ready v, None)) of
        (err, n) \<Rightarrow> (err, replicate n (EvGetVM name)))"
proof -
  have w: "wrap64 (wrap64 9223372037 * Second) = - 9223372036709551616"
    by (simp add: wrap64_def Second_def)
  have "waitVMReady rt ctx name client 9223372037 =
     (case PollImmediateWithContext rt ctx 1000000000 (- 9223372036709551616)
             (\<lambda>k. case Get client k name of
                     Inl err \<Rightarrow> (False, Some err)
                   | Inr v \<Rightarrow> (vm_ready v, None)) of
        (err, n) \<Rightarrow> (err, replicate n (EvGetVM name)))"
    unfolding waitVMReady_def w by (simp add: Second_def)
  with w show ?thesis by blast
qed

end
